theory Spec2Isabelle
  imports Complex_Main "HOL-Library.AList"
begin

section \<open>Data model (models.py)\<close>

text \<open>
  The three tables the attendance views touch. Primary keys are Django's automatic
  integer \<open>id\<close> columns (named \<open>pk\<close> and \<open>eid\<close> here, since \<open>id\<close> is the HOL identity).
  Foreign keys are stored as the primary key of the row they point to. Columns that no
  attendance path reads (name, email, phone, role, timestamps, the event's description)
  are left out. \<open>photo\<close> is the name under which the image is stored; \<open>None\<close> is an
  image field with no file, which Python treats as false.
\<close>

record student_row =
  pk :: int
  user :: int
  student_id :: string
  is_active :: bool
  photo :: "string option"

record event_row =
  eid :: int
  title :: string

record attendance_row =
  student :: int
  event :: int
  marked_by :: int
  is_manual :: bool
  "notes" :: "string option"

record db =
  students :: "student_row list"
  events :: "event_row list"
  attendances :: "attendance_row list"

section \<open>Exceptions and the ORM calls\<close>

datatype exn =
  DoesNotExist | MultipleObjectsReturned | ValueError | CvError | SuspiciousFileOperation

text \<open>
  \<open>QuerySet.get\<close>, applied to the rows that satisfy the lookup: no row raises
  \<open>DoesNotExist\<close>, one row is returned, several rows raise \<open>MultipleObjectsReturned\<close>.
\<close>

definition get_one :: "'a list \<Rightarrow> exn + 'a" where
  "get_one rows =
     (case rows of
        [] \<Rightarrow> Inl DoesNotExist
      | [r] \<Rightarrow> Inr r
      | _ \<Rightarrow> Inl MultipleObjectsReturned)"

text \<open>
  \<open>Attendance.objects.get_or_create(student=s, event=e, defaults=d)\<close>: look the pair up;
  an existing row is returned with \<open>created = False\<close> and the table is left as it is;
  when there is none, a row is built from the lookup values and the defaults, inserted,
  and returned with \<open>created = True\<close>. The result carries the table after the call.
\<close>

definition get_or_create ::
  "attendance_row list \<Rightarrow> int \<Rightarrow> int \<Rightarrow> attendance_row
     \<Rightarrow> exn + (attendance_row \<times> bool \<times> attendance_row list)" where
  "get_or_create tbl s e defaults =
     (case get_one (filter (\<lambda>a. student a = s \<and> event a = e) tbl) of
        Inr a \<Rightarrow> Inr (a, False, tbl)
      | Inl DoesNotExist \<Rightarrow>
          (let a = defaults\<lparr>student := s, event := e\<rparr> in Inr (a, True, tbl @ [a]))
      | Inl x \<Rightarrow> Inl x)"

section \<open>The ledger loops of views.py\<close>

text \<open>
  The marking loop of \<open>group_attendance\<close> (views.py 560-572). Every
  \<open>get_or_create\<close> is committed as it runs, so an exception leaves the rows written so
  far in the table: the result is the table after the loop together with either the
  exception that ended it or \<open>attendance_count\<close>. The e-mail sent after a creation is
  wrapped in its own \<open>try\<close> and changes neither the table nor the count.
\<close>

fun mark_recognized ::
  "int \<Rightarrow> int \<Rightarrow> student_row list \<Rightarrow> attendance_row list \<Rightarrow> nat
     \<Rightarrow> attendance_row list \<times> (exn + nat)" where
  "mark_recognized ev coordinator [] tbl attendance_count = (tbl, Inr attendance_count)"
| "mark_recognized ev coordinator (s # ss) tbl attendance_count =
     (case get_or_create tbl (pk s) ev
             \<lparr>student = pk s, event = ev, marked_by = coordinator,
              is_manual = False, notes = None\<rparr> of
        Inl x \<Rightarrow> (tbl, Inl x)
      | Inr (a, created, tbl') \<Rightarrow>
          mark_recognized ev coordinator ss tbl'
            (if created then attendance_count + 1 else attendance_count))"

text \<open>
  A value posted in a form field is a string; the ORM converts it with \<open>int\<close> before it
  compares it with an integer column. \<open>Pk n\<close> is a posted string that converts to \<open>n\<close>,
  \<open>NotInt\<close> one that does not (the lookup then raises \<open>ValueError\<close>).
\<close>

datatype posted = Pk int | NotInt

text \<open>
  The loop of \<open>manual_attendance\<close> (views.py 805-844, the second definition of the
  view, which is the one the module exports). Only \<open>Student.DoesNotExist\<close> is caught.
\<close>

fun mark_manual ::
  "int \<Rightarrow> int \<Rightarrow> string \<Rightarrow> student_row list \<Rightarrow> posted list \<Rightarrow> attendance_row list \<Rightarrow> nat
     \<Rightarrow> attendance_row list \<times> (exn + nat)" where
  "mark_manual ev admin admin_notes studs [] tbl attendance_count =
     (tbl, Inr attendance_count)"
| "mark_manual ev admin admin_notes studs (p # ps) tbl attendance_count =
     (case p of
        NotInt \<Rightarrow> (tbl, Inl ValueError)
      | Pk i \<Rightarrow>
          (case get_one (filter (\<lambda>s. pk s = i \<and> is_active s) studs) of
             Inl DoesNotExist \<Rightarrow>
               mark_manual ev admin admin_notes studs ps tbl attendance_count
           | Inl x \<Rightarrow> (tbl, Inl x)
           | Inr s \<Rightarrow>
               (case get_or_create tbl (pk s) ev
                       \<lparr>student = pk s, event = ev, marked_by = admin, is_manual = True,
                        notes = Some (''Manually marked by admin. '' @ admin_notes)\<rparr> of
                  Inl x \<Rightarrow> (tbl, Inl x)
                | Inr (a, created, tbl') \<Rightarrow>
                    mark_manual ev admin admin_notes studs ps tbl'
                      (if created then attendance_count + 1 else attendance_count))))"

section \<open>The recognizer of face_utils.py\<close>

text \<open>
  OpenCV and the file storage are outside the repository, so their calls are
  parameters of the model. \<open>photo_path\<close> is \<open>student.photo.path\<close>: the absolute path of
  a stored name, or the exception Django raises for a name that leaves the media
  directory. \<open>imread\<close> returns \<open>None\<close> for a file it cannot decode. \<open>detectMultiScale\<close> stands for
  the grayscale conversion followed by the cascade detector with the fixed parameters
  of the source (scale factor 1.1, 5 neighbours, minimum size 30 by 30) and returns
  the rectangles in detection order. \<open>face_roi\<close> crops a rectangle from the grayscale
  image and resizes it to 100 by 100. \<open>predict\<close> is the LBPH classifier: it takes the
  samples the model was trained on and a patch, and returns a label with a confidence
  (a distance, lower is closer) or raises, as OpenCV does on a model that was never
  trained. The other calls are taken to return normally.
\<close>

type_synonym rect = "int \<times> int \<times> int \<times> int"

record ('img, 'patch) cv =
  photo_path :: "string \<Rightarrow> exn + string"
  path_exists :: "string \<Rightarrow> bool"
  imread :: "string \<Rightarrow> 'img option"
  detectMultiScale :: "'img \<Rightarrow> rect list"
  face_roi :: "'img \<Rightarrow> rect \<Rightarrow> 'patch"
  predict :: "('patch \<times> int) list \<Rightarrow> 'patch \<Rightarrow> exn + (int \<times> real)"

text \<open>
  A \<open>SimpleFaceRecognizer\<close> object. \<open>trained\<close> is the state of \<open>self.recognizer\<close>, the
  samples given to \<open>train\<close> (empty on a fresh object). \<open>label_ids\<close> is the attribute of
  that name: \<open>None\<close> while the object does not have it (\<open>hasattr\<close> is false), otherwise
  the dictionary, as an association list. \<open>predict_log\<close> is not a field of the source:
  it records, in order, every patch the classifier was called on.
\<close>

record 'patch recognizer =
  trained :: "('patch \<times> int) list"
  label_ids :: "(int \<times> string) list option"
  predict_log :: "'patch list"

definition SimpleFaceRecognizer :: "'patch recognizer" where
  "SimpleFaceRecognizer = \<lparr>trained = [], label_ids = None, predict_log = []\<rparr>"

definition call_predict ::
  "('img, 'patch) cv \<Rightarrow> 'patch recognizer \<Rightarrow> 'patch
     \<Rightarrow> (exn + (int \<times> real)) \<times> 'patch recognizer" where
  "call_predict env r p = (predict env (trained r) p, r\<lparr>predict_log := predict_log r @ [p]\<rparr>)"

text \<open>
  \<open>load_and_train\<close> (face_utils.py 14-59). The local variables \<open>faces\<close>, \<open>labels\<close>,
  \<open>label_ids\<close> (here \<open>lids\<close>) and \<open>current_id\<close> are threaded through the two loops. An
  exception inside the loop ends it; the \<open>except\<close> of the method then returns \<open>False\<close>
  and the object is left as it was.
\<close>

fun add_faces ::
  "('img, 'patch) cv \<Rightarrow> 'img \<Rightarrow> string \<Rightarrow> rect list
     \<Rightarrow> 'patch list \<times> int list \<times> (int \<times> string) list \<times> int
     \<Rightarrow> 'patch list \<times> int list \<times> (int \<times> string) list \<times> int" where
  "add_faces env gray sid [] acc = acc"
| "add_faces env gray sid (rc # rcs) (faces, labels, lids, current_id) =
     add_faces env gray sid rcs
       (faces @ [face_roi env gray rc], labels @ [current_id],
        AList.update current_id sid lids, current_id + 1)"

fun train_loop ::
  "('img, 'patch) cv \<Rightarrow> student_row list
     \<Rightarrow> 'patch list \<times> int list \<times> (int \<times> string) list \<times> int
     \<Rightarrow> exn + 'patch list \<times> int list \<times> (int \<times> string) list \<times> int" where
  "train_loop env [] acc = Inr acc"
| "train_loop env (s # ss) acc =
     (case photo s of
        None \<Rightarrow> train_loop env ss acc
      | Some name \<Rightarrow>
          (case photo_path env name of
             Inl x \<Rightarrow> Inl x
           | Inr image_path \<Rightarrow>
               train_loop env ss
                 (if path_exists env image_path then
                    (case imread env image_path of
                       None \<Rightarrow> acc
                     | Some img \<Rightarrow>
                         add_faces env img (student_id s) (detectMultiScale env img) acc)
                  else acc)))"

definition load_and_train ::
  "('img, 'patch) cv \<Rightarrow> student_row list \<Rightarrow> 'patch recognizer
     \<Rightarrow> bool \<times> 'patch recognizer" where
  "load_and_train env studs r =
     (case train_loop env (filter is_active studs) ([], [], [], 0) of
        Inl x \<Rightarrow> (False, r)
      | Inr (faces, labels, lids, current_id) \<Rightarrow>
          if faces \<noteq> [] \<and> labels \<noteq> [] then
            (True, r\<lparr>trained := zip faces labels, label_ids := Some lids\<rparr>)
          else (False, r))"

text \<open>
  The loop of \<open>recognize_face\<close> (face_utils.py 82-94): it returns at the first face
  whose confidence is below 70, with whatever \<open>label_ids.get\<close> gives for its label. An
  exception of the classifier is caught by the method's \<open>except\<close> and becomes \<open>None\<close>.
\<close>

fun first_match ::
  "('img, 'patch) cv \<Rightarrow> 'img \<Rightarrow> rect list \<Rightarrow> 'patch recognizer
     \<Rightarrow> string option \<times> 'patch recognizer" where
  "first_match env gray [] r = (None, r)"
| "first_match env gray (rc # rcs) r =
     (case call_predict env r (face_roi env gray rc) of
        (Inl x, r') \<Rightarrow> (None, r')
      | (Inr (label, confidence), r') \<Rightarrow>
          if confidence < 70 then
            (case label_ids r' of
               None \<Rightarrow> (None, r')
             | Some lids \<Rightarrow> (map_of lids label, r'))
          else first_match env gray rcs r')"

definition recognize_face ::
  "('img, 'patch) cv \<Rightarrow> student_row list \<Rightarrow> 'patch recognizer \<Rightarrow> string
     \<Rightarrow> string option \<times> 'patch recognizer" where
  "recognize_face env studs r image_path =
     (case (if label_ids r = None then load_and_train env studs r else (True, r)) of
        (False, r') \<Rightarrow> (None, r')
      | (True, r') \<Rightarrow>
          (case imread env image_path of
             None \<Rightarrow> (None, r')
           | Some img \<Rightarrow>
               (let faces = detectMultiScale env img in
                if length faces = 0 then (None, r')
                else first_match env img faces r')))"

section \<open>Recognition in group_attendance (views.py 543-558)\<close>

text \<open>
  What the body of the loop does with one classifier result. The source compares with
  the literal 70; the cutoff is a parameter \<open>thr\<close> here and the view passes 70.
  \<open>Inr (Some s)\<close>: the student is appended to \<open>recognized_students\<close>; \<open>Inr None\<close>: the
  face is passed over; \<open>Inl x\<close>: the exception leaves the loop. The test
  \<open>hasattr(recognizer, 'recognizer')\<close> always holds, since the constructor sets that
  attribute; \<open>hasattr(recognizer, 'label_ids')\<close> is \<open>lids \<noteq> None\<close>; \<open>if student_id:\<close> fails
  for \<open>None\<close> (a label the map does not have) and for the empty string.
\<close>

definition match_face ::
  "student_row list \<Rightarrow> real \<Rightarrow> (int \<times> string) list option \<Rightarrow> int \<times> real
     \<Rightarrow> exn + student_row option" where
  "match_face studs thr lids res =
     (case res of (label, confidence) \<Rightarrow>
        if confidence < thr then
          (case lids of
             None \<Rightarrow> Inr None
           | Some m \<Rightarrow>
               (case map_of m label of
                  None \<Rightarrow> Inr None
                | Some sid \<Rightarrow>
                    if sid = [] then Inr None
                    else
                      (case get_one (filter (\<lambda>s. student_id s = sid \<and> is_active s) studs) of
                         Inr s \<Rightarrow> Inr (Some s)
                       | Inl DoesNotExist \<Rightarrow> Inr None
                       | Inl x \<Rightarrow> Inl x)))
        else Inr None)"

fun recognize_each ::
  "('img, 'patch) cv \<Rightarrow> student_row list \<Rightarrow> real \<Rightarrow> 'img \<Rightarrow> rect list
     \<Rightarrow> 'patch recognizer \<Rightarrow> student_row list
     \<Rightarrow> (exn + student_row list) \<times> 'patch recognizer" where
  "recognize_each env studs thr gray [] r recognized_students = (Inr recognized_students, r)"
| "recognize_each env studs thr gray (rc # rcs) r recognized_students =
     (case call_predict env r (face_roi env gray rc) of
        (Inl x, r') \<Rightarrow> (Inl x, r')
      | (Inr res, r') \<Rightarrow>
          (case match_face studs thr (label_ids r') res of
             Inl x \<Rightarrow> (Inl x, r')
           | Inr None \<Rightarrow> recognize_each env studs thr gray rcs r' recognized_students
           | Inr (Some s) \<Rightarrow>
               recognize_each env studs thr gray rcs r' (recognized_students @ [s])))"

section \<open>The two views\<close>

text \<open>
  The part of a request the two views read. \<open>group_photo\<close> is the upload, given by the
  temporary path the view saves it to; \<open>post_event_id\<close> is \<open>None\<close> when the field is
  missing or empty. The decorators that admit only coordinators or admins have run
  before the view.
\<close>

record request =
  is_post :: bool
  request_user :: int
  group_photo :: "string option"
  post_event_id :: "posted option"
  post_students :: "posted list"
  post_admin_notes :: string

text \<open>
  What a view answers: the form (a GET), a 404, an uncaught exception (a 500), or a
  redirect with one of the messages of the source. \<open>Completed n\<close> and
  \<open>ManualCompleted n\<close> are the two success messages with their \<open>attendance_count\<close>.
\<close>

datatype response =
    RenderForm
  | Http404
  | ServerError exn
  | SelectEvent
  | InvalidImage
  | NoFacesDetected
  | ErrorInGroupAttendance exn
  | Completed nat
  | SelectEventAndStudent
  | ManualCompleted nat

definition get_object_or_404 :: "'a list \<Rightarrow> response + 'a" where
  "get_object_or_404 rows =
     (case get_one rows of
        Inr r \<Rightarrow> Inr r
      | Inl DoesNotExist \<Rightarrow> Inl Http404
      | Inl x \<Rightarrow> Inl (ServerError x))"

text \<open>The lookup of the event named in the URL, made when the argument is truthy.\<close>

definition url_event :: "db \<Rightarrow> int option \<Rightarrow> response + event_row option" where
  "url_event d event_id =
     (case event_id of
        None \<Rightarrow> Inr None
      | Some i \<Rightarrow>
          if i = 0 then Inr None
          else
            (case get_object_or_404 (filter (\<lambda>e. eid e = i) (events d)) of
               Inl resp \<Rightarrow> Inl resp
             | Inr e \<Rightarrow> Inr (Some e)))"

text \<open>The \<open>try\<close> block of \<open>group_attendance\<close> (views.py 520-617).\<close>

definition process_group_photo ::
  "('img, 'patch) cv \<Rightarrow> event_row \<Rightarrow> student_row \<Rightarrow> string \<Rightarrow> db \<Rightarrow> response \<times> db" where
  "process_group_photo env ev coordinator temp_path d =
     (case imread env temp_path of
        None \<Rightarrow> (InvalidImage, d)
      | Some img \<Rightarrow>
          (let faces = detectMultiScale env img in
           if length faces = 0 then (NoFacesDetected, d)
           else
             (let r0 = SimpleFaceRecognizer;
                  r = (if label_ids r0 = None then snd (load_and_train env (students d) r0)
                       else r0)
              in case fst (recognize_each env (students d) 70 img faces r []) of
                   Inl x \<Rightarrow> (ErrorInGroupAttendance x, d)
                 | Inr recognized_students \<Rightarrow>
                     (case mark_recognized (eid ev) (pk coordinator) recognized_students
                             (attendances d) 0 of
                        (tbl, Inl x) \<Rightarrow> (ErrorInGroupAttendance x, d\<lparr>attendances := tbl\<rparr>)
                      | (tbl, Inr n) \<Rightarrow> (Completed n, d\<lparr>attendances := tbl\<rparr>)))))"

definition group_attendance ::
  "('img, 'patch) cv \<Rightarrow> int option \<Rightarrow> request \<Rightarrow> db \<Rightarrow> response \<times> db" where
  "group_attendance env event_id request d =
     (case url_event d event_id of
        Inl resp \<Rightarrow> (resp, d)
      | Inr _ \<Rightarrow>
          (case (is_post request, group_photo request) of
             (True, Some temp_path) \<Rightarrow>
               (case post_event_id request of
                  None \<Rightarrow> (SelectEvent, d)
                | Some NotInt \<Rightarrow> (ServerError ValueError, d)
                | Some (Pk i) \<Rightarrow>
                    (case get_object_or_404 (filter (\<lambda>e. eid e = i) (events d)) of
                       Inl resp \<Rightarrow> (resp, d)
                     | Inr ev \<Rightarrow>
                         (case get_object_or_404
                                 (filter (\<lambda>s. user s = request_user request) (students d)) of
                            Inl resp \<Rightarrow> (resp, d)
                          | Inr coordinator \<Rightarrow>
                              process_group_photo env ev coordinator temp_path d)))
           | _ \<Rightarrow> (RenderForm, d)))"

definition manual_attendance :: "int option \<Rightarrow> request \<Rightarrow> db \<Rightarrow> response \<times> db" where
  "manual_attendance event_id request d =
     (case url_event d event_id of
        Inl resp \<Rightarrow> (resp, d)
      | Inr _ \<Rightarrow>
          if is_post request then
            (case post_event_id request of
               None \<Rightarrow> (SelectEventAndStudent, d)
             | Some p \<Rightarrow>
                 if post_students request = [] then (SelectEventAndStudent, d)
                 else
                   (case p of
                      NotInt \<Rightarrow> (ServerError ValueError, d)
                    | Pk i \<Rightarrow>
                        (case get_object_or_404 (filter (\<lambda>e. eid e = i) (events d)) of
                           Inl resp \<Rightarrow> (resp, d)
                         | Inr ev \<Rightarrow>
                             (case get_object_or_404
                                     (filter (\<lambda>s. user s = request_user request) (students d)) of
                                Inl resp \<Rightarrow> (resp, d)
                              | Inr admin \<Rightarrow>
                                  (case mark_manual (eid ev) (pk admin) (post_admin_notes request)
                                          (students d) (post_students request) (attendances d) 0 of
                                     (tbl, Inl x) \<Rightarrow> (ServerError x, d\<lparr>attendances := tbl\<rparr>)
                                   | (tbl, Inr n) \<Rightarrow>
                                       (ManualCompleted n, d\<lparr>attendances := tbl\<rparr>))))))
          else (RenderForm, d))"

section \<open>Notions used to state the properties\<close>

text \<open>The constraint \<open>unique_together = ['student', 'event']\<close> of the Attendance table.\<close>

definition unique_pairs :: "attendance_row list \<Rightarrow> bool" where
  "unique_pairs tbl = distinct (map (\<lambda>a. (student a, event a)) tbl)"

text \<open>The rows of the Attendance table of \<open>d'\<close> that were inserted after \<open>d\<close>.\<close>

definition created_rows :: "db \<Rightarrow> db \<Rightarrow> attendance_row list" where
  "created_rows d d' = drop (length (attendances d)) (attendances d')"

text \<open>
  A submission is one POST to either view; a sequence of submissions is run from left
  to right, each on the database the previous one left.
\<close>

datatype ('img, 'patch) submission =
    GroupPhoto "('img, 'patch) cv" "int option" request
  | Manual "int option" request

fun submit :: "('img, 'patch) submission \<Rightarrow> db \<Rightarrow> response \<times> db" where
  "submit (GroupPhoto env event_id rq) d = group_attendance env event_id rq d"
| "submit (Manual event_id rq) d = manual_attendance event_id rq d"

fun run :: "('img, 'patch) submission list \<Rightarrow> db \<Rightarrow> db" where
  "run [] d = d"
| "run (x # xs) d = run xs (snd (submit x d))"

text \<open>
  The acceptance rule in the words of the specification: a label resolves to the
  identity \<open>s\<close> when the label map sends it to the student id of the active student \<open>s\<close>.
\<close>

definition resolves ::
  "student_row list \<Rightarrow> (int \<times> string) list option \<Rightarrow> int \<Rightarrow> student_row \<Rightarrow> bool" where
  "resolves studs lids label s =
     (case lids of
        None \<Rightarrow> False
      | Some m \<Rightarrow> map_of m label = Some (student_id s) \<and> s \<in> set studs \<and> is_active s)"

text \<open>
  The classifier result of every rectangle of a photo, in detection order, and what
  the loop of the view makes of each (\<open>None\<close> when it raises or passes over the face).
\<close>

definition results_of ::
  "('img, 'patch) cv \<Rightarrow> 'patch recognizer \<Rightarrow> 'img \<Rightarrow> rect list \<Rightarrow> (exn + (int \<times> real)) list" where
  "results_of env r gray rcs = map (\<lambda>rc. predict env (trained r) (face_roi env gray rc)) rcs"

definition accepted_of ::
  "student_row list \<Rightarrow> real \<Rightarrow> (int \<times> string) list option \<Rightarrow> exn + (int \<times> real)
     \<Rightarrow> student_row option" where
  "accepted_of studs thr lids res =
     (case res of
        Inl x \<Rightarrow> None
      | Inr lc \<Rightarrow> (case match_face studs thr lids lc of Inl x \<Rightarrow> None | Inr so \<Rightarrow> so))"



text \<open>The identities a run of the recognition loop accepted: none when it raised.\<close>

definition accepted_ids :: "(exn + student_row list) \<Rightarrow> int set" where
  "accepted_ids out = (case out of Inl x \<Rightarrow> {} | Inr ss \<Rightarrow> pk ` set ss)"

text \<open>
  The shape of a row written by the marking loop of the group-photo view for the event
  \<open>ev\<close>, marked by \<open>c\<close>, out of the recognized students \<open>ss\<close>; and of a row written by the
  manual view out of the posted ids \<open>ps\<close>.
\<close>

definition auto_row :: "int \<Rightarrow> int \<Rightarrow> student_row list \<Rightarrow> attendance_row \<Rightarrow> bool" where
  "auto_row ev c ss a \<longleftrightarrow>
     student a \<in> pk ` set ss \<and> event a = ev \<and> marked_by a = c \<and> \<not> is_manual a \<and> notes a = None"

definition manual_row ::
  "int \<Rightarrow> int \<Rightarrow> string \<Rightarrow> student_row list \<Rightarrow> posted list \<Rightarrow> attendance_row \<Rightarrow> bool" where
  "manual_row ev c an studs ps a \<longleftrightarrow>
     (\<exists>s\<in>set studs. pk s = student a \<and> is_active s \<and> Pk (pk s) \<in> set ps) \<and> event a = ev \<and>
     marked_by a = c \<and> is_manual a \<and> notes a = Some (''Manually marked by admin. '' @ an)"

text \<open>
  A posted student id that the lookup \<open>Student.objects.get(id=..., is_active=True)\<close> of
  the manual view answers with \<open>DoesNotExist\<close>: no active student has it.
\<close>

definition not_found :: "student_row list \<Rightarrow> posted \<Rightarrow> bool" where
  "not_found studs p =
     (case p of
        Pk i \<Rightarrow> filter (\<lambda>s. pk s = i \<and> is_active s) studs = []
      | NotInt \<Rightarrow> False)"

text \<open>
  The recognizer a group-photo request works with: a fresh object, trained on the
  students of the database (views.py 516 and 540-541).
\<close>

definition request_recognizer :: "('img, 'patch) cv \<Rightarrow> db \<Rightarrow> 'patch recognizer" where
  "request_recognizer env d = snd (load_and_train env (students d) SimpleFaceRecognizer)"

section \<open>A small world for concrete runs\<close>

text \<open>
  Three enrolled students, two of them with a reference photo, an inactive student,
  and a coordinator without a photo. An image is a number, a patch is the image
  together with the left edge of its rectangle. Every stored name is its own path.
  The classifier raises on a model that was never trained. Photo 7 shows the faces of S1 (distance 40), S2 (distance 55) and
  a third face at distance 95; photo 8 shows S1 in two overlapping rectangles; photo 9
  shows no face; photo 6 shows one face at distance 95. The file \<open>q\<close> is not an image.
\<close>

definition alice :: student_row where
  "alice = \<lparr>pk = 1, user = 11, student_id = ''S1'', is_active = True, photo = Some ''a''\<rparr>"

definition bob :: student_row where
  "bob = \<lparr>pk = 2, user = 12, student_id = ''S2'', is_active = True, photo = Some ''b''\<rparr>"

definition carol :: student_row where
  "carol = \<lparr>pk = 3, user = 13, student_id = ''S3'', is_active = True, photo = None\<rparr>"

definition dave :: student_row where
  "dave = \<lparr>pk = 4, user = 14, student_id = ''S4'', is_active = False, photo = None\<rparr>"

definition kim :: student_row where
  "kim = \<lparr>pk = 5, user = 15, student_id = ''K1'', is_active = True, photo = None\<rparr>"

definition camp :: event_row where
  "camp = \<lparr>eid = 100, title = ''camp''\<rparr>"

definition world :: db where
  "world = \<lparr>students = [alice, bob, carol, dave, kim], events = [camp], attendances = []\<rparr>"

definition demo_cv :: "(nat, nat \<times> int) cv" where
  "demo_cv =
     \<lparr>photo_path = (\<lambda>name. Inr name),
      path_exists = (\<lambda>p. True),
      imread = (\<lambda>p. if p = ''a'' then Some 1 else if p = ''b'' then Some 2
                    else if p = ''g'' then Some 7 else if p = ''h'' then Some 8
                    else if p = ''z'' then Some 9 else if p = ''n'' then Some 6 else None),
      detectMultiScale = (\<lambda>i. if i = 1 \<or> i = 2 \<or> i = 6 then [(0, 0, 50, 50)]
                    else if i = 7 then [(0, 0, 40, 40), (50, 0, 40, 40), (100, 0, 40, 40)]
                    else if i = 8 then [(0, 0, 40, 40), (2, 2, 40, 40)]
                    else []),
      face_roi = (\<lambda>i rc. (i, fst rc)),
      predict = (\<lambda>samples p.
                    if samples = [] then Inl CvError
                    else if p = (7, 0) then Inr (0, 40)
                    else if p = (7, 50) then Inr (1, 55)
                    else if p = (7, 100) then Inr (0, 95)
                    else if p = (8, 0) then Inr (0, 30)
                    else if p = (8, 2) then Inr (0, 45)
                    else if p = (6, 0) then Inr (0, 95)
                    else Inr (5, 60))\<rparr>"

definition group_post :: "string \<Rightarrow> request" where
  "group_post temp_path =
     \<lparr>is_post = True, request_user = 15, group_photo = Some temp_path,
      post_event_id = Some (Pk 100), post_students = [], post_admin_notes = []\<rparr>"

definition manual_post :: "posted list \<Rightarrow> request" where
  "manual_post ids =
     \<lparr>is_post = True, request_user = 15, group_photo = None,
      post_event_id = Some (Pk 100), post_students = ids, post_admin_notes = ''late''\<rparr>"

text \<open>The equations that evaluate a run in this world.\<close>

lemmas demo_defs =
  group_attendance_def manual_attendance_def url_event_def group_post_def manual_post_def
  world_def get_object_or_404_def get_one_def camp_def alice_def bob_def carol_def dave_def
  kim_def process_group_photo_def demo_cv_def SimpleFaceRecognizer_def load_and_train_def
  call_predict_def match_face_def get_or_create_def Let_def

section \<open>The ledger writer\<close>

lemma get_one_Inr: "get_one rows = Inr r \<longleftrightarrow> rows = [r]"
  by (auto simp: get_one_def split: list.splits)

lemma get_one_DoesNotExist: "get_one rows = Inl DoesNotExist \<longleftrightarrow> rows = []"
  by (auto simp: get_one_def split: list.splits)

lemma get_one_short: "length rows \<le> 1 \<Longrightarrow> get_one rows = Inl x \<Longrightarrow> x = DoesNotExist"
  by (auto simp: get_one_def split: list.splits)

lemma filter_key_short:
  "distinct (map f xs) \<Longrightarrow> length (filter (\<lambda>x. f x = v \<and> P x) xs) \<le> 1"
proof (induction xs)
  case Nil
  then show ?case by simp
next
  case (Cons x xs)
  show ?case
  proof (cases "f x = v")
    case True
    with Cons.prems have "v \<notin> f ` set xs" by simp
    then have "filter (\<lambda>y. f y = v \<and> P y) xs = []"
      by (auto simp: filter_empty_conv)
    then show ?thesis by simp
  next
    case False
    with Cons show ?thesis by simp
  qed
qed

lemma pair_filter_short:
  assumes "unique_pairs tbl"
  shows "length (filter (\<lambda>a. student a = s \<and> event a = e) tbl) \<le> 1"
proof -
  have "length (filter (\<lambda>a. (student a, event a) = (s, e) \<and> True) tbl) \<le> 1"
    using assms unfolding unique_pairs_def by (rule filter_key_short)
  then show ?thesis by simp
qed

lemma get_or_create_cases:
  assumes "get_or_create tbl s e dflt = Inr (a, created, tbl')"
  shows "(\<not> created \<and> tbl' = tbl \<and> filter (\<lambda>a. student a = s \<and> event a = e) tbl = [a]) \<or>
         (created \<and> tbl' = tbl @ [a] \<and> a = dflt\<lparr>student := s, event := e\<rparr> \<and>
          filter (\<lambda>a. student a = s \<and> event a = e) tbl = [])"
  using assms
  by (auto simp: get_or_create_def get_one_Inr get_one_DoesNotExist Let_def
           split: sum.splits exn.splits)

lemma get_or_create_total:
  assumes "unique_pairs tbl"
  shows "\<exists>a created tbl'. get_or_create tbl s e dflt = Inr (a, created, tbl')"
proof (cases "get_one (filter (\<lambda>a. student a = s \<and> event a = e) tbl)")
  case (Inl x)
  from get_one_short[OF pair_filter_short[OF assms] Inl] Inl show ?thesis
    by (auto simp: get_or_create_def Let_def)
next
  case (Inr a)
  then show ?thesis by (auto simp: get_or_create_def)
qed

lemma get_or_create_existing:
  assumes "unique_pairs tbl" "a \<in> set tbl" "student a = s" "event a = e"
  shows "get_or_create tbl s e dflt = Inr (a, False, tbl)"
proof -
  let ?m = "filter (\<lambda>a. student a = s \<and> event a = e) tbl"
  have "a \<in> set ?m" using assms by simp
  moreover have "length ?m \<le> 1" by (rule pair_filter_short[OF assms(1)])
  ultimately have "?m = [a]" by (cases ?m) auto
  then show ?thesis by (simp add: get_or_create_def get_one_def)
qed

lemma unique_pairs_snoc:
  "unique_pairs tbl \<Longrightarrow> filter (\<lambda>a. student a = s \<and> event a = e) tbl = [] \<Longrightarrow>
   student a = s \<Longrightarrow> event a = e \<Longrightarrow> unique_pairs (tbl @ [a])"
  by (auto simp: unique_pairs_def filter_empty_conv)

lemma get_or_create_unique:
  assumes "get_or_create tbl s e dflt = Inr (a, created, tbl')" "unique_pairs tbl"
  shows "unique_pairs tbl'"
  using get_or_create_cases[OF assms(1)] assms(2)
  by (auto intro: unique_pairs_snoc)

lemma get_or_create_member:
  assumes "get_or_create tbl s e dflt = Inr (a, created, tbl')"
  shows "a \<in> set tbl' \<and> student a = s \<and> event a = e \<and> set tbl \<subseteq> set tbl'"
proof -
  from get_or_create_cases[OF assms]
  consider "tbl' = tbl" "filter (\<lambda>a. student a = s \<and> event a = e) tbl = [a]"
    | "tbl' = tbl @ [a]" "a = dflt\<lparr>student := s, event := e\<rparr>" by blast
  then show ?thesis
  proof cases
    case 1
    from 1(2) have "a \<in> set (filter (\<lambda>a. student a = s \<and> event a = e) tbl)" by simp
    with 1(1) show ?thesis by auto
  next
    case 2
    then show ?thesis by auto
  qed
qed


lemma mark_recognized_spec:
  "mark_recognized ev c ss tbl n = (tbl', res) \<Longrightarrow>
   \<exists>new. tbl' = tbl @ new \<and> (\<forall>a\<in>set new. auto_row ev c ss a) \<and> distinct (map student new) \<and>
     (\<forall>a\<in>set new. \<forall>b\<in>set tbl. \<not> (student b = student a \<and> event b = ev)) \<and>
     (\<forall>m. res = Inr m \<longrightarrow> m = n + length new)"
proof (induction ss arbitrary: tbl n)
  case Nil
  then show ?case by auto
next
  case (Cons s ss)
  let ?d = "\<lparr>student = pk s, event = ev, marked_by = c, is_manual = False, notes = None\<rparr>"
  show ?case
  proof (cases "get_or_create tbl (pk s) ev ?d")
    case (Inl x)
    with Cons.prems show ?thesis by auto
  next
    case (Inr t)
    obtain a created tbl1 where t: "t = (a, created, tbl1)" by (cases t) auto
    with Inr have goc: "get_or_create tbl (pk s) ev ?d = Inr (a, created, tbl1)" by simp
    with Cons.prems have rest:
      "mark_recognized ev c ss tbl1 (if created then n + 1 else n) = (tbl', res)" by simp
    from Cons.IH[OF rest] obtain new where new:
      "tbl' = tbl1 @ new" "\<forall>a\<in>set new. auto_row ev c ss a" "distinct (map student new)"
      "\<forall>a\<in>set new. \<forall>b\<in>set tbl1. \<not> (student b = student a \<and> event b = ev)"
      "\<forall>m. res = Inr m \<longrightarrow> m = (if created then n + 1 else n) + length new" by blast
    from new(2) have new2: "\<forall>a\<in>set new. auto_row ev c (s # ss) a"
      by (auto simp: auto_row_def)
    from get_or_create_cases[OF goc]
    consider "\<not> created" "tbl1 = tbl"
      | "created" "tbl1 = tbl @ [a]" "a = ?d\<lparr>student := pk s, event := ev\<rparr>" by blast
    then show ?thesis
    proof cases
      case 1
      with new new2 show ?thesis by auto
    next
      case 2
      from 2(3) have a: "auto_row ev c (s # ss) a" "event a = ev" by (auto simp: auto_row_def)
      from new(4) 2(2) a(2) have fresh: "student a \<notin> student ` set new" by auto
      from get_or_create_cases[OF goc] 2(1)
      have empty: "filter (\<lambda>a. student a = pk s \<and> event a = ev) tbl = []" by auto
      from 2(3) have "student a = pk s" by simp
      with empty have notin: "\<forall>b\<in>set tbl. \<not> (student b = student a \<and> event b = ev)"
        by (auto simp: filter_empty_conv)
      have "tbl' = tbl @ (a # new)" using new(1) 2(2) by simp
      moreover have "\<forall>x\<in>set (a # new). auto_row ev c (s # ss) x" using a new2 by simp
      moreover have "distinct (map student (a # new))" using fresh new(3) by simp
      moreover have "\<forall>x\<in>set (a # new). \<forall>b\<in>set tbl. \<not> (student b = student x \<and> event b = ev)"
        using notin new(4) 2(2) by auto
      moreover have "\<forall>m. res = Inr m \<longrightarrow> m = n + length (a # new)" using new(5) 2(1) by simp
      ultimately show ?thesis by blast
    qed
  qed
qed


lemma mark_recognized_again:
  "unique_pairs tbl \<Longrightarrow> mark_recognized ev c ss tbl n = (tbl', res) \<Longrightarrow>
   unique_pairs T \<Longrightarrow> set tbl' \<subseteq> set T \<Longrightarrow>
   mark_recognized ev c ss T k = (T, case res of Inl x \<Rightarrow> Inl x | Inr m \<Rightarrow> Inr k)"
proof (induction ss arbitrary: tbl n)
  case Nil
  then show ?case by auto
next
  case (Cons s ss)
  let ?d = "\<lparr>student = pk s, event = ev, marked_by = c, is_manual = False, notes = None\<rparr>"
  from get_or_create_total[OF Cons.prems(1)] obtain a created tbl1 where
    goc: "get_or_create tbl (pk s) ev ?d = Inr (a, created, tbl1)" by blast
  with Cons.prems(2) have rest:
    "mark_recognized ev c ss tbl1 (if created then n + 1 else n) = (tbl', res)" by simp
  from mark_recognized_spec[OF rest] have "set tbl1 \<subseteq> set tbl'" by auto
  with get_or_create_member[OF goc] Cons.prems(4)
  have "a \<in> set T" "student a = pk s" "event a = ev" by auto
  from get_or_create_existing[OF Cons.prems(3) this]
  have "get_or_create T (pk s) ev ?d = Inr (a, False, T)" .
  moreover from Cons.IH[OF get_or_create_unique[OF goc Cons.prems(1)] rest Cons.prems(3,4)]
  have "mark_recognized ev c ss T k = (T, case res of Inl x \<Rightarrow> Inl x | Inr m \<Rightarrow> Inr k)" .
  ultimately show ?case by simp
qed

lemma mark_recognized_unique:
  assumes "unique_pairs tbl"
  shows "unique_pairs (fst (mark_recognized ev c ss tbl n))"
  using assms
proof (induction ss arbitrary: tbl n)
  case Nil
  then show ?case by simp
next
  case (Cons s ss)
  then show ?case
    by (auto split: sum.splits dest: get_or_create_unique)
qed

lemma manual_row_mono: "manual_row ev c an studs ps a \<Longrightarrow> manual_row ev c an studs (p # ps) a"
  by (auto simp: manual_row_def)

lemma mark_manual_spec:
  "mark_manual ev c an studs ps tbl n = (tbl', res) \<Longrightarrow>
   \<exists>new. tbl' = tbl @ new \<and> (\<forall>a\<in>set new. manual_row ev c an studs ps a) \<and>
     distinct (map student new) \<and>
     (\<forall>a\<in>set new. \<forall>b\<in>set tbl. \<not> (student b = student a \<and> event b = ev)) \<and>
     (\<forall>m. res = Inr m \<longrightarrow> m = n + length new)"
proof (induction ps arbitrary: tbl n)
  case Nil
  then show ?case by auto
next
  case (Cons p ps)
  show ?case
  proof (cases p)
    case NotInt
    with Cons.prems show ?thesis by auto
  next
    case (Pk i)
    show ?thesis
    proof (cases "get_one (filter (\<lambda>s. pk s = i \<and> is_active s) studs)")
      case (Inl x)
      show ?thesis
      proof (cases "x = DoesNotExist")
        case True
        with Inl Pk Cons.prems
        have "mark_manual ev c an studs ps tbl n = (tbl', res)" by simp
        from Cons.IH[OF this] show ?thesis by (blast intro: manual_row_mono)
      next
        case False
        with Inl Pk Cons.prems have "tbl' = tbl" "res = Inl x"
          by (auto split: exn.splits)
        then show ?thesis by auto
      qed
    next
      case (Inr s)
      then have s: "s \<in> set studs" "pk s = i" "is_active s"
        using get_one_Inr[of "filter (\<lambda>s. pk s = i \<and> is_active s) studs" s]
        by (metis (mono_tags, lifting) list.set_intros(1) mem_Collect_eq set_filter)+
      let ?d = "\<lparr>student = pk s, event = ev, marked_by = c, is_manual = True,
                 notes = Some (''Manually marked by admin. '' @ an)\<rparr>"
      show ?thesis
      proof (cases "get_or_create tbl (pk s) ev ?d")
        case (Inl x)
        with Inr Pk Cons.prems show ?thesis by auto
      next
        case goc0: (Inr t)
        obtain a created tbl1 where t: "t = (a, created, tbl1)" by (cases t) auto
        with goc0 have goc: "get_or_create tbl (pk s) ev ?d = Inr (a, created, tbl1)" by simp
        with Inr Pk Cons.prems have rest:
          "mark_manual ev c an studs ps tbl1 (if created then n + 1 else n) = (tbl', res)"
          by simp
        from Cons.IH[OF rest] obtain new where new:
          "tbl' = tbl1 @ new" "\<forall>a\<in>set new. manual_row ev c an studs ps a"
          "distinct (map student new)"
          "\<forall>a\<in>set new. \<forall>b\<in>set tbl1. \<not> (student b = student a \<and> event b = ev)"
          "\<forall>m. res = Inr m \<longrightarrow> m = (if created then n + 1 else n) + length new" by blast
        from new(2) have new2: "\<forall>a\<in>set new. manual_row ev c an studs (p # ps) a"
          by (blast intro: manual_row_mono)
        from get_or_create_cases[OF goc]
        consider "\<not> created" "tbl1 = tbl"
          | "created" "tbl1 = tbl @ [a]" "a = ?d\<lparr>student := pk s, event := ev\<rparr>" by blast
        then show ?thesis
        proof cases
          case 1
          with new new2 show ?thesis by auto
        next
          case 2
          from 2(3) s Pk have a: "manual_row ev c an studs (p # ps) a" "event a = ev"
            by (auto simp: manual_row_def)
          from new(4) 2(2) a(2) have fresh: "student a \<notin> student ` set new" by auto
          from get_or_create_cases[OF goc] 2(1)
          have empty: "filter (\<lambda>a. student a = pk s \<and> event a = ev) tbl = []" by auto
          from 2(3) have "student a = pk s" by simp
          with empty have notin: "\<forall>b\<in>set tbl. \<not> (student b = student a \<and> event b = ev)"
            by (auto simp: filter_empty_conv)
          have "tbl' = tbl @ (a # new)" using new(1) 2(2) by simp
          moreover have "\<forall>x\<in>set (a # new). manual_row ev c an studs (p # ps) x"
            using a new2 by simp
          moreover have "distinct (map student (a # new))" using fresh new(3) by simp
          moreover have
            "\<forall>x\<in>set (a # new). \<forall>b\<in>set tbl. \<not> (student b = student x \<and> event b = ev)"
            using notin new(4) 2(2) by auto
          moreover have "\<forall>m. res = Inr m \<longrightarrow> m = n + length (a # new)"
            using new(5) 2(1) by simp
          ultimately show ?thesis by blast
        qed
      qed
    qed
  qed
qed

lemma unique_pairs_append:
  assumes "unique_pairs tbl" "distinct (map student new)" "\<forall>a\<in>set new. event a = ev"
    "\<forall>a\<in>set new. \<forall>b\<in>set tbl. \<not> (student b = student a \<and> event b = ev)"
  shows "unique_pairs (tbl @ new)"
proof -
  have "distinct (map (\<lambda>a. (student a, event a)) new)"
    using assms(2) by (simp add: distinct_map inj_on_def)
  moreover have "set (map (\<lambda>a. (student a, event a)) tbl) \<inter>
                 set (map (\<lambda>a. (student a, event a)) new) = {}"
    using assms(3,4) by auto
  ultimately show ?thesis using assms(1) by (simp add: unique_pairs_def)
qed


lemma mark_manual_again:
  "unique_pairs tbl \<Longrightarrow> mark_manual ev c an studs ps tbl n = (tbl', res) \<Longrightarrow>
   unique_pairs T \<Longrightarrow> set tbl' \<subseteq> set T \<Longrightarrow>
   mark_manual ev c an studs ps T k = (T, case res of Inl x \<Rightarrow> Inl x | Inr m \<Rightarrow> Inr k)"
proof (induction ps arbitrary: tbl n)
  case Nil
  then show ?case by auto
next
  case (Cons p ps)
  show ?case
  proof (cases p)
    case NotInt
    with Cons.prems show ?thesis by auto
  next
    case (Pk i)
    show ?thesis
    proof (cases "get_one (filter (\<lambda>s. pk s = i \<and> is_active s) studs)")
      case (Inl x)
      show ?thesis
      proof (cases "x = DoesNotExist")
        case True
        with Inl Pk Cons.prems
        have "mark_manual ev c an studs ps tbl n = (tbl', res)" by simp
        from Cons.IH[OF Cons.prems(1) this Cons.prems(3,4)] Inl Pk True
        show ?thesis by simp
      next
        case False
        with Inl Pk Cons.prems have "res = Inl x" by (auto split: exn.splits)
        with False Inl Pk show ?thesis by (auto split: exn.splits)
      qed
    next
      case (Inr s)
      let ?d = "\<lparr>student = pk s, event = ev, marked_by = c, is_manual = True,
                 notes = Some (''Manually marked by admin. '' @ an)\<rparr>"
      from get_or_create_total[OF Cons.prems(1)] obtain a created tbl1 where
        goc: "get_or_create tbl (pk s) ev ?d = Inr (a, created, tbl1)" by blast
      with Inr Pk Cons.prems(2) have rest:
        "mark_manual ev c an studs ps tbl1 (if created then n + 1 else n) = (tbl', res)"
        by simp
      from mark_manual_spec[OF rest] have "set tbl1 \<subseteq> set tbl'" by auto
      with get_or_create_member[OF goc] Cons.prems(4)
      have "a \<in> set T" "student a = pk s" "event a = ev" by auto
      from get_or_create_existing[OF Cons.prems(3) this]
      have "get_or_create T (pk s) ev ?d = Inr (a, False, T)" .
      moreover
      from Cons.IH[OF get_or_create_unique[OF goc Cons.prems(1)] rest Cons.prems(3,4)]
      have "mark_manual ev c an studs ps T k =
              (T, case res of Inl x \<Rightarrow> Inl x | Inr m \<Rightarrow> Inr k)" .
      ultimately show ?thesis using Inr Pk by simp
    qed
  qed
qed

lemma mark_manual_unique:
  assumes "unique_pairs tbl"
  shows "unique_pairs (fst (mark_manual ev c an studs ps tbl n))"
proof -
  obtain tbl' res where r: "mark_manual ev c an studs ps tbl n = (tbl', res)"
    by (cases "mark_manual ev c an studs ps tbl n") auto
  from mark_manual_spec[OF r] obtain new where
    "tbl' = tbl @ new" "\<forall>a\<in>set new. manual_row ev c an studs ps a" "distinct (map student new)"
    "\<forall>a\<in>set new. \<forall>b\<in>set tbl. \<not> (student b = student a \<and> event b = ev)" by blast
  then have "unique_pairs tbl'"
    using unique_pairs_append[OF assms, of new ev] by (auto simp: manual_row_def)
  with r show ?thesis by simp
qed


lemma call_predict_simps:
  "fst (call_predict env r p) = predict env (trained r) p"
  "trained (snd (call_predict env r p)) = trained r"
  "label_ids (snd (call_predict env r p)) = label_ids r"
  "predict_log (snd (call_predict env r p)) = predict_log r @ [p]"
  by (simp_all add: call_predict_def)

lemma recognize_each_step:
  "recognize_each env studs thr g (rc # rcs) r acc =
     (case predict env (trained r) (face_roi env g rc) of
        Inl x \<Rightarrow> (Inl x, snd (call_predict env r (face_roi env g rc)))
      | Inr res \<Rightarrow>
          (case match_face studs thr (label_ids r) res of
             Inl x \<Rightarrow> (Inl x, snd (call_predict env r (face_roi env g rc)))
           | Inr so \<Rightarrow>
               recognize_each env studs thr g rcs (snd (call_predict env r (face_roi env g rc)))
                 (acc @ (case so of None \<Rightarrow> [] | Some s \<Rightarrow> [s]))))"
  by (simp add: call_predict_def split: sum.splits option.splits)

lemma recognize_each_Inr:
  "recognize_each env studs thr g rcs r acc = (Inr out, r') \<Longrightarrow>
   out = acc @ List.map_filter (accepted_of studs thr (label_ids r)) (results_of env r g rcs) \<and>
   predict_log r' = predict_log r @ map (face_roi env g) rcs \<and>
   (\<forall>res\<in>set (results_of env r g rcs). \<exists>lc so. res = Inr lc \<and>
       match_face studs thr (label_ids r) lc = Inr so)"
proof (induction rcs arbitrary: r acc)
  case Nil
  then show ?case by (simp add: results_of_def map_filter_simps)
next
  case (Cons rc rcs)
  let ?r1 = "snd (call_predict env r (face_roi env g rc))"
  from Cons.prems obtain lc so where
    p: "predict env (trained r) (face_roi env g rc) = Inr lc" and
    m: "match_face studs thr (label_ids r) lc = Inr so" and
    rest: "recognize_each env studs thr g rcs ?r1
             (acc @ (case so of None \<Rightarrow> [] | Some s \<Rightarrow> [s])) = (Inr out, r')"
    unfolding recognize_each_step by (auto split: sum.splits)
  have same: "results_of env ?r1 g rcs = results_of env r g rcs"
    by (simp add: results_of_def call_predict_simps)
  from Cons.IH[OF rest] same p m show ?case
    by (cases lc)
       (auto simp: results_of_def call_predict_simps map_filter_simps accepted_of_def
             split: option.splits)
qed


lemma filter_singleton: "filter P xs = [x] \<Longrightarrow> P x \<and> x \<in> set xs"
proof -
  assume "filter P xs = [x]"
  then have "x \<in> set (filter P xs)" by simp
  then show ?thesis by simp
qed

lemma process_group_photo_alt:
  "process_group_photo env ev c p d =
     (case imread env p of
        None \<Rightarrow> (InvalidImage, d)
      | Some img \<Rightarrow>
          if detectMultiScale env img = [] then (NoFacesDetected, d)
          else
            (case fst (recognize_each env (students d) 70 img (detectMultiScale env img)
                        (request_recognizer env d) []) of
               Inl x \<Rightarrow> (ErrorInGroupAttendance x, d)
             | Inr out \<Rightarrow>
                 (case mark_recognized (eid ev) (pk c) out (attendances d) 0 of
                    (tbl, res) \<Rightarrow>
                      (case res of Inl x \<Rightarrow> ErrorInGroupAttendance x | Inr n \<Rightarrow> Completed n,
                       d\<lparr>attendances := tbl\<rparr>))))"
  by (simp add: process_group_photo_def request_recognizer_def SimpleFaceRecognizer_def Let_def
           split: option.splits sum.splits prod.splits)

lemma process_group_photo_cases:
  assumes "process_group_photo env ev c p d = (resp, d')"
  shows "(d' = d \<and> (\<forall>n. resp \<noteq> Completed n)) \<or>
         (\<exists>img out r' tbl' res. imread env p = Some img \<and> detectMultiScale env img \<noteq> [] \<and>
            recognize_each env (students d) 70 img (detectMultiScale env img)
              (request_recognizer env d) [] = (Inr out, r') \<and>
            mark_recognized (eid ev) (pk c) out (attendances d) 0 = (tbl', res) \<and>
            d' = d\<lparr>attendances := tbl'\<rparr> \<and>
            resp = (case res of Inl x \<Rightarrow> ErrorInGroupAttendance x | Inr n \<Rightarrow> Completed n))"
proof (cases "imread env p")
  case None
  with assms show ?thesis by (auto simp: process_group_photo_alt)
next
  case (Some img)
  show ?thesis
  proof (cases "detectMultiScale env img = []")
    case True
    with Some assms show ?thesis by (auto simp: process_group_photo_alt)
  next
    case False
    let ?rec = "recognize_each env (students d) 70 img (detectMultiScale env img)
                  (request_recognizer env d) []"
    show ?thesis
    proof (cases "fst ?rec")
      case (Inl x)
      with Some False assms show ?thesis
        by (auto simp: process_group_photo_alt)
    next
      case (Inr out)
      then obtain r' where rec: "?rec = (Inr out, r')" by (cases ?rec) auto
      obtain tbl' res where
        mk: "mark_recognized (eid ev) (pk c) out (attendances d) 0 = (tbl', res)"
        by (cases "mark_recognized (eid ev) (pk c) out (attendances d) 0") auto
      from assms Some False Inr mk
      have "d' = d\<lparr>attendances := tbl'\<rparr>"
        "resp = (case res of Inl x \<Rightarrow> ErrorInGroupAttendance x | Inr n \<Rightarrow> Completed n)"
        by (auto simp: process_group_photo_alt)
      with Some False rec mk show ?thesis by blast
    qed
  qed
qed

lemma get_object_or_404_Inr: "get_object_or_404 rows = Inr r \<longleftrightarrow> rows = [r]"
  by (auto simp: get_object_or_404_def get_one_def split: sum.splits exn.splits list.splits)

lemma url_event_Inl: "url_event d u = Inl resp \<Longrightarrow> \<forall>n. resp \<noteq> Completed n \<and> resp \<noteq> ManualCompleted n"
  by (auto simp: url_event_def get_object_or_404_def split: option.splits if_splits sum.splits exn.splits)

lemma get_object_or_404_Inl:
  "get_object_or_404 rows = Inl resp \<Longrightarrow> \<forall>n. resp \<noteq> Completed n \<and> resp \<noteq> ManualCompleted n"
  by (auto simp: get_object_or_404_def split: sum.splits exn.splits)

lemma group_attendance_cases:
  assumes "group_attendance env u rq d = (resp, d')"
  shows "(d' = d \<and> (\<forall>n. resp \<noteq> Completed n)) \<or>
         (\<exists>ev c p. (\<exists>uev. url_event d u = Inr uev) \<and> is_post rq \<and>
            group_photo rq = Some p \<and> post_event_id rq = Some (Pk (eid ev)) \<and>
            filter (\<lambda>e. eid e = eid ev) (events d) = [ev] \<and>
            filter (\<lambda>s. user s = request_user rq) (students d) = [c] \<and>
            process_group_photo env ev c p d = (resp, d'))"
proof (cases "url_event d u")
  case (Inl r)
  with assms url_event_Inl[OF Inl] show ?thesis by (auto simp: group_attendance_def)
next
  case url: (Inr uev)
  show ?thesis
  proof (cases "is_post rq")
    case False
    with url assms show ?thesis by (auto simp: group_attendance_def)
  next
    case post: True
    show ?thesis
    proof (cases "group_photo rq")
      case None
      with url post assms show ?thesis by (auto simp: group_attendance_def)
    next
      case photo: (Some p)
      show ?thesis
      proof (cases "post_event_id rq")
        case None
        with url post photo assms show ?thesis by (auto simp: group_attendance_def)
      next
        case (Some pe)
        show ?thesis
        proof (cases pe)
          case NotInt
          with Some url post photo assms show ?thesis by (auto simp: group_attendance_def)
        next
          case (Pk i)
          show ?thesis
          proof (cases "get_object_or_404 (filter (\<lambda>e. eid e = i) (events d))")
            case (Inl r)
            with Pk Some url post photo assms get_object_or_404_Inl[OF Inl]
            show ?thesis by (auto simp: group_attendance_def)
          next
            case ev: (Inr ev)
            then have f: "filter (\<lambda>e. eid e = i) (events d) = [ev]"
              by (simp add: get_object_or_404_Inr)
            from filter_singleton[OF f] have i: "i = eid ev" by simp
            show ?thesis
            proof (cases "get_object_or_404
                            (filter (\<lambda>s. user s = request_user rq) (students d))")
              case (Inl r)
              with ev Pk Some url post photo assms get_object_or_404_Inl[OF Inl]
              show ?thesis by (auto simp: group_attendance_def)
            next
              case (Inr c)
              then have "filter (\<lambda>s. user s = request_user rq) (students d) = [c]"
                by (simp add: get_object_or_404_Inr)
              moreover from Inr ev Pk Some url post photo assms
              have "process_group_photo env ev c p d = (resp, d')"
                by (simp add: group_attendance_def)
              ultimately show ?thesis using url post photo Some Pk f i by blast
            qed
          qed
        qed
      qed
    qed
  qed
qed

lemma manual_attendance_cases:
  assumes "manual_attendance u rq d = (resp, d')"
  shows "(d' = d \<and> (\<forall>n. resp \<noteq> ManualCompleted n)) \<or>
         (\<exists>ev c tbl' res. (\<exists>uev. url_event d u = Inr uev) \<and> is_post rq \<and>
            post_students rq \<noteq> [] \<and> post_event_id rq = Some (Pk (eid ev)) \<and>
            filter (\<lambda>e. eid e = eid ev) (events d) = [ev] \<and>
            filter (\<lambda>s. user s = request_user rq) (students d) = [c] \<and>
            mark_manual (eid ev) (pk c) (post_admin_notes rq) (students d) (post_students rq)
              (attendances d) 0 = (tbl', res) \<and>
            d' = d\<lparr>attendances := tbl'\<rparr> \<and>
            resp = (case res of Inl x \<Rightarrow> ServerError x | Inr n \<Rightarrow> ManualCompleted n))"
proof (cases "url_event d u")
  case (Inl r)
  with assms url_event_Inl[OF Inl] show ?thesis by (auto simp: manual_attendance_def)
next
  case url: (Inr uev)
  show ?thesis
  proof (cases "is_post rq")
    case False
    with url assms show ?thesis by (auto simp: manual_attendance_def)
  next
    case post: True
    show ?thesis
    proof (cases "post_event_id rq")
      case None
      with url post assms show ?thesis by (auto simp: manual_attendance_def)
    next
      case (Some pe)
      show ?thesis
      proof (cases "post_students rq = []")
        case True
        with Some url post assms show ?thesis by (auto simp: manual_attendance_def)
      next
        case ids: False
        show ?thesis
        proof (cases pe)
          case NotInt
          with ids Some url post assms show ?thesis by (auto simp: manual_attendance_def)
        next
          case (Pk i)
          show ?thesis
          proof (cases "get_object_or_404 (filter (\<lambda>e. eid e = i) (events d))")
            case (Inl r)
            with Pk ids Some url post assms get_object_or_404_Inl[OF Inl]
            show ?thesis by (auto simp: manual_attendance_def)
          next
            case ev: (Inr ev)
            then have f: "filter (\<lambda>e. eid e = i) (events d) = [ev]"
              by (simp add: get_object_or_404_Inr)
            from filter_singleton[OF f] have i: "i = eid ev" by simp
            show ?thesis
            proof (cases "get_object_or_404
                            (filter (\<lambda>s. user s = request_user rq) (students d))")
              case (Inl r)
              with ev Pk ids Some url post assms get_object_or_404_Inl[OF Inl]
              show ?thesis by (auto simp: manual_attendance_def)
            next
              case (Inr c)
              then have fc: "filter (\<lambda>s. user s = request_user rq) (students d) = [c]"
                by (simp add: get_object_or_404_Inr)
              obtain tbl' res where mk:
                "mark_manual (eid ev) (pk c) (post_admin_notes rq) (students d)
                   (post_students rq) (attendances d) 0 = (tbl', res)"
                by (cases "mark_manual (eid ev) (pk c) (post_admin_notes rq) (students d)
                   (post_students rq) (attendances d) 0") auto
              from Inr ev Pk ids Some url post assms mk
              have "d' = d\<lparr>attendances := tbl'\<rparr>"
                "resp = (case res of Inl x \<Rightarrow> ServerError x | Inr n \<Rightarrow> ManualCompleted n)"
                by (auto simp: manual_attendance_def split: sum.splits)
              with fc mk url ids post Some Pk f i show ?thesis by blast
            qed
          qed
        qed
      qed
    qed
  qed
qed


lemma group_attendance_rows:
  assumes "group_attendance env u rq d = (resp, d')"
  shows "\<exists>new ev c out. d' = d\<lparr>attendances := attendances d @ new\<rparr> \<and>
           (\<forall>a\<in>set new. auto_row ev c out a) \<and> distinct (map student new) \<and>
           (\<forall>a\<in>set new. \<forall>b\<in>set (attendances d). \<not> (student b = student a \<and> event b = ev)) \<and>
           (\<forall>n. resp = Completed n \<longrightarrow> n = length new) \<and>
           (new = [] \<or>
            (\<exists>p img r'. group_photo rq = Some p \<and> imread env p = Some img \<and>
               recognize_each env (students d) 70 img (detectMultiScale env img)
                 (request_recognizer env d) [] = (Inr out, r')))"
proof -
  from group_attendance_cases[OF assms]
  consider "d' = d" "\<forall>n. resp \<noteq> Completed n"
    | ev c p where "group_photo rq = Some p" "process_group_photo env ev c p d = (resp, d')"
    by blast
  then show ?thesis
  proof cases
    case 1
    then have "d' = d\<lparr>attendances := attendances d @ []\<rparr>" by simp
    with 1(2) show ?thesis by (intro exI[of _ "[]"]) auto
  next
    case 2
    from process_group_photo_cases[OF 2(2)]
    consider "d' = d" "\<forall>n. resp \<noteq> Completed n"
      | img out r' tbl' res where "imread env p = Some img"
          "recognize_each env (students d) 70 img (detectMultiScale env img)
              (request_recognizer env d) [] = (Inr out, r')"
          "mark_recognized (eid ev) (pk c) out (attendances d) 0 = (tbl', res)"
          "d' = d\<lparr>attendances := tbl'\<rparr>"
          "resp = (case res of Inl x \<Rightarrow> ErrorInGroupAttendance x | Inr n \<Rightarrow> Completed n)"
      by blast
    then show ?thesis
    proof cases
      case 1
      then have "d' = d\<lparr>attendances := attendances d @ []\<rparr>" by simp
      with 1(2) show ?thesis by (intro exI[of _ "[]"]) auto
    next
      case inner: 2
      from mark_recognized_spec[OF inner(3)] obtain new where new:
        "tbl' = attendances d @ new" "\<forall>a\<in>set new. auto_row (eid ev) (pk c) out a"
        "distinct (map student new)"
        "\<forall>a\<in>set new. \<forall>b\<in>set (attendances d). \<not> (student b = student a \<and> event b = eid ev)"
        "\<forall>m. res = Inr m \<longrightarrow> m = 0 + length new" by blast
      from inner(5) new(5) have "\<forall>n. resp = Completed n \<longrightarrow> n = length new"
        by (auto split: sum.splits)
      with new inner(1,2,4) 2(1) show ?thesis
        by (intro exI[of _ new] exI[of _ "eid ev"] exI[of _ "pk c"] exI[of _ out]) auto
    qed
  qed
qed

lemma manual_attendance_rows:
  assumes "manual_attendance u rq d = (resp, d')"
  shows "\<exists>new ev c. d' = d\<lparr>attendances := attendances d @ new\<rparr> \<and>
           (\<forall>a\<in>set new. manual_row ev c (post_admin_notes rq) (students d) (post_students rq) a) \<and>
           distinct (map student new) \<and>
           (\<forall>a\<in>set new. \<forall>b\<in>set (attendances d). \<not> (student b = student a \<and> event b = ev)) \<and>
           (\<forall>n. resp = ManualCompleted n \<longrightarrow> n = length new)"
proof -
  from manual_attendance_cases[OF assms]
  consider "d' = d" "\<forall>n. resp \<noteq> ManualCompleted n"
    | ev :: event_row and c :: student_row and tbl' res where
        "mark_manual (eid ev) (pk c) (post_admin_notes rq) (students d) (post_students rq)
              (attendances d) 0 = (tbl', res)"
        "d' = d\<lparr>attendances := tbl'\<rparr>"
        "resp = (case res of Inl x \<Rightarrow> ServerError x | Inr n \<Rightarrow> ManualCompleted n)"
    by blast
  then show ?thesis
  proof cases
    case 1
    then have "d' = d\<lparr>attendances := attendances d @ []\<rparr>" by simp
    with 1(2) show ?thesis by (intro exI[of _ "[]"]) auto
  next
    case 2
    from mark_manual_spec[OF 2(1)] obtain new where new:
      "tbl' = attendances d @ new"
      "\<forall>a\<in>set new. manual_row (eid ev) (pk c) (post_admin_notes rq) (students d)
          (post_students rq) a"
      "distinct (map student new)"
      "\<forall>a\<in>set new. \<forall>b\<in>set (attendances d). \<not> (student b = student a \<and> event b = eid ev)"
      "\<forall>m. res = Inr m \<longrightarrow> m = 0 + length new" by blast
    from 2(3) new(5) have "\<forall>n. resp = ManualCompleted n \<longrightarrow> n = length new"
      by (auto split: sum.splits)
    with new 2(2) show ?thesis
      by (intro exI[of _ new] exI[of _ "eid ev"] exI[of _ "pk c"]) auto
  qed
qed

lemma submit_step:
  assumes "unique_pairs (attendances d)"
  shows "unique_pairs (attendances (snd (submit x d))) \<and>
         (\<exists>new. attendances (snd (submit x d)) = attendances d @ new)"
proof (cases x)
  case (GroupPhoto env u rq)
  obtain resp d' where r: "group_attendance env u rq d = (resp, d')"
    by (cases "group_attendance env u rq d") auto
  from group_attendance_rows[OF r] obtain new ev c out where new:
    "d' = d\<lparr>attendances := attendances d @ new\<rparr>" "\<forall>a\<in>set new. auto_row ev c out a"
    "distinct (map student new)"
    "\<forall>a\<in>set new. \<forall>b\<in>set (attendances d). \<not> (student b = student a \<and> event b = ev)"
    by blast
  from new(2) have "\<forall>a\<in>set new. event a = ev" by (simp add: auto_row_def)
  from unique_pairs_append[OF assms new(3) this new(4)] new(1) r GroupPhoto
  show ?thesis by simp
next
  case (Manual u rq)
  obtain resp d' where r: "manual_attendance u rq d = (resp, d')"
    by (cases "manual_attendance u rq d") auto
  from manual_attendance_rows[OF r] obtain new ev c where new:
    "d' = d\<lparr>attendances := attendances d @ new\<rparr>"
    "\<forall>a\<in>set new. manual_row ev c (post_admin_notes rq) (students d) (post_students rq) a"
    "distinct (map student new)"
    "\<forall>a\<in>set new. \<forall>b\<in>set (attendances d). \<not> (student b = student a \<and> event b = ev)"
    by blast
  from new(2) have "\<forall>a\<in>set new. event a = ev" by (simp add: manual_row_def)
  from unique_pairs_append[OF assms new(3) this new(4)] new(1) r Manual
  show ?thesis by simp
qed

lemma run_invariant:
  "unique_pairs (attendances d) \<Longrightarrow>
   unique_pairs (attendances (run subs d)) \<and> (\<exists>new. attendances (run subs d) = attendances d @ new)"
proof (induction subs arbitrary: d)
  case Nil
  then show ?case by simp
next
  case (Cons x xs)
  from submit_step[OF Cons.prems, of x] obtain n1 where
    s: "unique_pairs (attendances (snd (submit x d)))"
       "attendances (snd (submit x d)) = attendances d @ n1" by blast
  from Cons.IH[OF s(1)] obtain n2 where
    "unique_pairs (attendances (run xs (snd (submit x d))))"
    "attendances (run xs (snd (submit x d))) = attendances (snd (submit x d)) @ n2" by blast
  with s(2) show ?case by simp
qed

section \<open>Uniqueness of attendance rows\<close>

text \<open>
  Claim C1. Starting from a table that satisfies the uniqueness constraint (the empty
  table does), after any sequence of group-photo and manual submissions there is at
  most one attendance row for every student and event. Both views write through
  \<open>get_or_create\<close> only, and no submission removes a row: the table after the sequence
  is the table before it with rows appended.
\<close>

theorem attendance_unique_after_submissions:
  assumes "unique_pairs (attendances d)"
  shows "length (filter (\<lambda>a. student a = s \<and> event a = e) (attendances (run subs d))) \<le> 1 \<and>
         (\<exists>new. attendances (run subs d) = attendances d @ new)"
  using run_invariant[OF assms, of subs] pair_filter_short by blast

theorem attendance_unique_after_submissions_witness:
  "unique_pairs (attendances world) \<and>
   attendances (run [GroupPhoto demo_cv None (group_post ''g''),
                     Manual None (manual_post [Pk 1, Pk 3]),
                     GroupPhoto demo_cv None (group_post ''h'')] world) =
     [\<lparr>student = 1, event = 100, marked_by = 5, is_manual = False, notes = None\<rparr>,
      \<lparr>student = 2, event = 100, marked_by = 5, is_manual = False, notes = None\<rparr>,
      \<lparr>student = 3, event = 100, marked_by = 5, is_manual = True,
        notes = Some ''Manually marked by admin. late''\<rparr>] \<and>
   length (filter (\<lambda>a. student a = 1 \<and> event a = 100)
     (attendances (run [GroupPhoto demo_cv None (group_post ''g''),
                     Manual None (manual_post [Pk 1, Pk 3]),
                     GroupPhoto demo_cv None (group_post ''h'')] world))) \<le> 1"
proof -
  have u: "unique_pairs (attendances world)"
    by (simp add: unique_pairs_def world_def)
  have "attendances (run [GroupPhoto demo_cv None (group_post ''g''),
                     Manual None (manual_post [Pk 1, Pk 3]),
                     GroupPhoto demo_cv None (group_post ''h'')] world) =
     [\<lparr>student = 1, event = 100, marked_by = 5, is_manual = False, notes = None\<rparr>,
      \<lparr>student = 2, event = 100, marked_by = 5, is_manual = False, notes = None\<rparr>,
      \<lparr>student = 3, event = 100, marked_by = 5, is_manual = True,
        notes = Some ''Manually marked by admin. late''\<rparr>]"
    by (simp add: demo_defs)
  with u attendance_unique_after_submissions[OF u, of 1 100
       "[GroupPhoto demo_cv None (group_post ''g''),
                     Manual None (manual_post [Pk 1, Pk 3]),
                     GroupPhoto demo_cv None (group_post ''h'')]"]
  show ?thesis by simp
qed

section \<open>Repeated submissions\<close>

lemma url_event_attendances [simp]: "url_event (d\<lparr>attendances := t\<rparr>) u = url_event d u"
  by (simp add: url_event_def split: option.splits)

lemma request_recognizer_attendances [simp]:
  "request_recognizer env (d\<lparr>attendances := t\<rparr>) = request_recognizer env d"
  by (simp add: request_recognizer_def)

lemma not_completed:
  "\<forall>n. resp \<noteq> Completed n \<Longrightarrow> (case resp of Completed n \<Rightarrow> Completed 0 | r \<Rightarrow> r) = resp"
  by (cases resp) auto

lemma not_manual_completed:
  "\<forall>n. resp \<noteq> ManualCompleted n \<Longrightarrow>
   (case resp of ManualCompleted n \<Rightarrow> ManualCompleted 0 | r \<Rightarrow> r) = resp"
  by (cases resp) auto

lemma group_attendance_process:
  assumes "url_event d u = Inr uev" "is_post rq" "group_photo rq = Some p"
    "post_event_id rq = Some (Pk (eid ev))"
    "filter (\<lambda>e. eid e = eid ev) (events d) = [ev]"
    "filter (\<lambda>s. user s = request_user rq) (students d) = [c]"
  shows "group_attendance env u rq d = process_group_photo env ev c p d"
  using assms by (simp add: group_attendance_def get_object_or_404_def get_one_def)

lemma group_attendance_again:
  assumes u: "unique_pairs (attendances d)" and r: "group_attendance env u rq d = (resp, d')"
  shows "group_attendance env u rq d' = (case resp of Completed n \<Rightarrow> Completed 0 | r \<Rightarrow> r, d')"
proof -
  from group_attendance_cases[OF r]
  consider "d' = d" "\<forall>n. resp \<noteq> Completed n"
    | ev c p uev where "url_event d u = Inr uev" "is_post rq" "group_photo rq = Some p"
        "post_event_id rq = Some (Pk (eid ev))"
        "filter (\<lambda>e. eid e = eid ev) (events d) = [ev]"
        "filter (\<lambda>s. user s = request_user rq) (students d) = [c]"
        "process_group_photo env ev c p d = (resp, d')"
    by blast
  then show ?thesis
  proof cases
    case 1
    with r not_completed[OF 1(2)] show ?thesis by simp
  next
    case 2
    from process_group_photo_cases[OF 2(7)]
    consider "d' = d" "\<forall>n. resp \<noteq> Completed n"
      | img out r' tbl' res where "imread env p = Some img" "detectMultiScale env img \<noteq> []"
          "recognize_each env (students d) 70 img (detectMultiScale env img)
              (request_recognizer env d) [] = (Inr out, r')"
          "mark_recognized (eid ev) (pk c) out (attendances d) 0 = (tbl', res)"
          "d' = d\<lparr>attendances := tbl'\<rparr>"
          "resp = (case res of Inl x \<Rightarrow> ErrorInGroupAttendance x | Inr n \<Rightarrow> Completed n)"
      by blast
    then show ?thesis
    proof cases
      case 1
      with r not_completed[OF 1(2)] show ?thesis by simp
    next
      case inner: 2
      have "unique_pairs tbl'"
        using mark_recognized_unique[OF u, of "eid ev" "pk c" out 0] inner(4) by simp
      from mark_recognized_again[OF u inner(4) this subset_refl, of 0]
      have again: "mark_recognized (eid ev) (pk c) out tbl' 0 =
                     (tbl', case res of Inl x \<Rightarrow> Inl x | Inr m \<Rightarrow> Inr 0)" .
      have "group_attendance env u rq d' = process_group_photo env ev c p d'"
        using 2(1-6) inner(5) by (intro group_attendance_process[where uev = uev]) simp_all
      also have "\<dots> = (case res of Inl x \<Rightarrow> ErrorInGroupAttendance x | Inr n \<Rightarrow> Completed 0, d')"
        using inner(1,2,3,5) again
        by (simp add: process_group_photo_alt split: sum.splits)
      also have "(case res of Inl x \<Rightarrow> ErrorInGroupAttendance x | Inr n \<Rightarrow> Completed 0) =
                 (case resp of Completed n \<Rightarrow> Completed 0 | r \<Rightarrow> r)"
        using inner(6) by (cases res) simp_all
      finally show ?thesis .
    qed
  qed
qed

lemma manual_attendance_again:
  assumes u: "unique_pairs (attendances d)" and r: "manual_attendance u rq d = (resp, d')"
  shows "manual_attendance u rq d' =
           (case resp of ManualCompleted n \<Rightarrow> ManualCompleted 0 | r \<Rightarrow> r, d')"
proof -
  from manual_attendance_cases[OF r]
  consider "d' = d" "\<forall>n. resp \<noteq> ManualCompleted n"
    | ev :: event_row and c :: student_row and tbl' res uev where
        "url_event d u = Inr uev" "is_post rq" "post_students rq \<noteq> []"
        "post_event_id rq = Some (Pk (eid ev))"
        "filter (\<lambda>e. eid e = eid ev) (events d) = [ev]"
        "filter (\<lambda>s. user s = request_user rq) (students d) = [c]"
        "mark_manual (eid ev) (pk c) (post_admin_notes rq) (students d) (post_students rq)
              (attendances d) 0 = (tbl', res)"
        "d' = d\<lparr>attendances := tbl'\<rparr>"
        "resp = (case res of Inl x \<Rightarrow> ServerError x | Inr n \<Rightarrow> ManualCompleted n)"
    by blast
  then show ?thesis
  proof cases
    case 1
    with r not_manual_completed[OF 1(2)] show ?thesis by simp
  next
    case 2
    have "unique_pairs tbl'"
      using mark_manual_unique[OF u, of "eid ev" "pk c" "post_admin_notes rq" "students d"
          "post_students rq" 0] 2(7) by simp
    from mark_manual_again[OF u 2(7) this subset_refl, of 0]
    have again: "mark_manual (eid ev) (pk c) (post_admin_notes rq) (students d)
                   (post_students rq) tbl' 0 =
                     (tbl', case res of Inl x \<Rightarrow> Inl x | Inr m \<Rightarrow> Inr 0)" .
    have "manual_attendance u rq d' =
            (case res of Inl x \<Rightarrow> ServerError x | Inr n \<Rightarrow> ManualCompleted 0, d')"
      using 2(1-6,8) again
      by (simp add: manual_attendance_def get_object_or_404_def get_one_def split: sum.splits)
    also have "(case res of Inl x \<Rightarrow> ServerError x | Inr n \<Rightarrow> ManualCompleted 0) =
                 (case resp of ManualCompleted n \<Rightarrow> ManualCompleted 0 | r \<Rightarrow> r)"
      using 2(9) by (cases res) simp_all
    finally show ?thesis .
  qed
qed

text \<open>
  Claim C2. On a table that satisfies the uniqueness constraint, \<open>get_or_create\<close> for a
  pair that already has a row returns that row with \<open>created = False\<close>, leaves the table
  as it is and raises nothing, whatever the defaults. Consequently a group-photo
  submission repeated on the database the first one left writes nothing: the database
  is unchanged and the answer is the first one with an \<open>attendance_count\<close> of 0. The same
  holds for a repeated manual submission.
\<close>

theorem duplicate_write_is_noop:
  assumes "unique_pairs (attendances d)"
  shows "(a \<in> set (attendances d) \<longrightarrow>
            get_or_create (attendances d) (student a) (event a) dflt =
              Inr (a, False, attendances d)) \<and>
         group_attendance env u rq (snd (group_attendance env u rq d)) =
           (case fst (group_attendance env u rq d) of Completed n \<Rightarrow> Completed 0 | r \<Rightarrow> r,
            snd (group_attendance env u rq d)) \<and>
         manual_attendance v rq' (snd (manual_attendance v rq' d)) =
           (case fst (manual_attendance v rq' d) of
              ManualCompleted n \<Rightarrow> ManualCompleted 0 | r \<Rightarrow> r,
            snd (manual_attendance v rq' d))"
proof (intro conjI impI)
  assume "a \<in> set (attendances d)"
  from get_or_create_existing[OF assms this refl refl]
  show "get_or_create (attendances d) (student a) (event a) dflt =
          Inr (a, False, attendances d)" .
next
  show "group_attendance env u rq (snd (group_attendance env u rq d)) =
           (case fst (group_attendance env u rq d) of Completed n \<Rightarrow> Completed 0 | r \<Rightarrow> r,
            snd (group_attendance env u rq d))"
    using group_attendance_again[OF assms, of env u rq] by (metis prod.collapse)
next
  show "manual_attendance v rq' (snd (manual_attendance v rq' d)) =
           (case fst (manual_attendance v rq' d) of
              ManualCompleted n \<Rightarrow> ManualCompleted 0 | r \<Rightarrow> r,
            snd (manual_attendance v rq' d))"
    using manual_attendance_again[OF assms, of v rq'] by (metis prod.collapse)
qed


theorem duplicate_write_is_noop_witness:
  "unique_pairs (attendances world) \<and>
   group_attendance demo_cv None (group_post ''g'') world =
     (Completed 2,
      world\<lparr>attendances :=
        [\<lparr>student = 1, event = 100, marked_by = 5, is_manual = False, notes = None\<rparr>,
         \<lparr>student = 2, event = 100, marked_by = 5, is_manual = False, notes = None\<rparr>]\<rparr>) \<and>
   group_attendance demo_cv None (group_post ''g'')
       (snd (group_attendance demo_cv None (group_post ''g'') world)) =
     (Completed 0, snd (group_attendance demo_cv None (group_post ''g'') world)) \<and>
   unique_pairs (attendances (snd (group_attendance demo_cv None (group_post ''g'') world))) \<and>
   get_or_create (attendances (snd (group_attendance demo_cv None (group_post ''g'') world)))
       1 100 \<lparr>student = 1, event = 100, marked_by = 3, is_manual = True, notes = Some ''x''\<rparr> =
     Inr (\<lparr>student = 1, event = 100, marked_by = 5, is_manual = False, notes = None\<rparr>, False,
          attendances (snd (group_attendance demo_cv None (group_post ''g'') world)))"
proof -
  have u: "unique_pairs (attendances world)"
    by (simp add: unique_pairs_def world_def)
  have g: "group_attendance demo_cv None (group_post ''g'') world =
     (Completed 2,
      world\<lparr>attendances :=
        [\<lparr>student = 1, event = 100, marked_by = 5, is_manual = False, notes = None\<rparr>,
         \<lparr>student = 2, event = 100, marked_by = 5, is_manual = False, notes = None\<rparr>]\<rparr>)"
    by (simp add: demo_defs)
  have u1: "unique_pairs (attendances (snd (group_attendance demo_cv None (group_post ''g'') world)))"
    by (simp add: g unique_pairs_def)
  let ?a = "\<lparr>student = 1, event = 100, marked_by = 5, is_manual = False, notes = None\<rparr>"
  let ?dflt = "\<lparr>student = 1, event = 100, marked_by = 3, is_manual = True, notes = Some ''x''\<rparr>"
  from duplicate_write_is_noop[where d = world and a = ?a and dflt = ?dflt and env = demo_cv
         and u = None and rq = "group_post ''g''" and v = None and rq' = "manual_post []", OF u]
       duplicate_write_is_noop[where
         d = "snd (group_attendance demo_cv None (group_post ''g'') world)" and a = ?a
         and dflt = ?dflt and env = demo_cv and u = None and rq = "group_post ''g''"
         and v = None and rq' = "manual_post []", OF u1]
       u u1 g
  show ?thesis by simp
qed

lemma created_rows_append [simp]:
  "created_rows d (d\<lparr>attendances := attendances d @ new\<rparr>) = new"
  by (simp add: created_rows_def)

section \<open>Rows written by one submission\<close>

text \<open>
  Claim C6. One group-photo submission inserts at most one attendance row for any
  student, however many accepted faces of the photo resolve to that student: the
  second \<open>get_or_create\<close> for the student finds the row the first one wrote.
\<close>

theorem one_new_row_per_student_and_photo:
  "length (filter (\<lambda>a. student a = p)
     (created_rows d (snd (group_attendance env u rq d)))) \<le> 1"
proof -
  obtain resp d' where r: "group_attendance env u rq d = (resp, d')"
    by (cases "group_attendance env u rq d") auto
  from group_attendance_rows[OF r] obtain new where
    "d' = d\<lparr>attendances := attendances d @ new\<rparr>" "distinct (map student new)" by blast
  with r filter_key_short[of student new p "\<lambda>a. True"] show ?thesis by simp
qed

theorem one_new_row_per_student_and_photo_witness:
  "fst (recognize_each demo_cv (students world) 70 8 (detectMultiScale demo_cv 8)
          (request_recognizer demo_cv world) []) = Inr [alice, alice] \<and>
   created_rows world (snd (group_attendance demo_cv None (group_post ''h'') world)) =
     [\<lparr>student = 1, event = 100, marked_by = 5, is_manual = False, notes = None\<rparr>] \<and>
   length (filter (\<lambda>a. student a = 1)
     (created_rows world (snd (group_attendance demo_cv None (group_post ''h'') world)))) \<le> 1"
  using one_new_row_per_student_and_photo[of 1 world demo_cv None "group_post ''h''"]
  by (simp add: demo_defs request_recognizer_def created_rows_def)

lemma manual_created_rows:
  assumes a: "a \<in> set (created_rows d (snd (manual_attendance u rq d)))"
  shows "\<exists>ev c. manual_row ev c (post_admin_notes rq) (students d) (post_students rq) a"
proof -
  obtain resp d' where r: "manual_attendance u rq d = (resp, d')"
    by (cases "manual_attendance u rq d") auto
  from manual_attendance_rows[OF r] obtain new ev c where
    "d' = d\<lparr>attendances := attendances d @ new\<rparr>"
    "\<forall>a\<in>set new. manual_row ev c (post_admin_notes rq) (students d) (post_students rq) a"
    by blast
  with a r show ?thesis by auto
qed

lemma group_created_rows:
  assumes a: "a \<in> set (created_rows d (snd (group_attendance env u rq d)))"
  shows "\<exists>ev c out p img r'. auto_row ev c out a \<and> group_photo rq = Some p \<and>
           imread env p = Some img \<and>
           recognize_each env (students d) 70 img (detectMultiScale env img)
             (request_recognizer env d) [] = (Inr out, r')"
proof -
  obtain resp d' where r: "group_attendance env u rq d = (resp, d')"
    by (cases "group_attendance env u rq d") auto
  from group_attendance_rows[OF r] obtain new ev c out where new:
    "d' = d\<lparr>attendances := attendances d @ new\<rparr>" "\<forall>a\<in>set new. auto_row ev c out a"
    "new = [] \<or>
            (\<exists>p img r'. group_photo rq = Some p \<and> imread env p = Some img \<and>
               recognize_each env (students d) 70 img (detectMultiScale env img)
                 (request_recognizer env d) [] = (Inr out, r'))"
    by blast
  from a r new(1) have mem: "a \<in> set new" by simp
  with new(2) have row: "auto_row ev c out a" by blast
  from mem new(3) obtain p img r' where
    "group_photo rq = Some p" "imread env p = Some img"
    "recognize_each env (students d) 70 img (detectMultiScale env img)
       (request_recognizer env d) [] = (Inr out, r')"
    by (cases new) auto
  with row show ?thesis by blast
qed

text \<open>
  Claim C9. Every row inserted by the manual view has \<open>is_manual = True\<close> and the notes
  \<open>Manually marked by admin. \<close> followed by the posted admin notes, which is never empty;
  every row inserted by the group-photo view has \<open>is_manual = False\<close> and no notes.
\<close>

theorem manual_rows_carry_notes_automatic_rows_do_not:
  "(\<forall>a\<in>set (created_rows d (snd (manual_attendance u rq d))).
      is_manual a \<and> notes a = Some (''Manually marked by admin. '' @ post_admin_notes rq) \<and>
      notes a \<noteq> None \<and> notes a \<noteq> Some []) \<and>
   (\<forall>a\<in>set (created_rows d (snd (group_attendance env v rq' d))).
      \<not> is_manual a \<and> notes a = None)"
proof -
  have "is_manual a \<and> notes a = Some (''Manually marked by admin. '' @ post_admin_notes rq) \<and>
      notes a \<noteq> None \<and> notes a \<noteq> Some []"
    if "a \<in> set (created_rows d (snd (manual_attendance u rq d)))" for a
    using manual_created_rows[OF that] by (auto simp: manual_row_def)
  moreover have "\<not> is_manual a \<and> notes a = None"
    if "a \<in> set (created_rows d (snd (group_attendance env v rq' d)))" for a
    using group_created_rows[OF that] by (auto simp: auto_row_def)
  ultimately show ?thesis by blast
qed

theorem manual_rows_carry_notes_automatic_rows_do_not_witness:
  "created_rows world (snd (manual_attendance None (manual_post [Pk 3]) world)) =
     [\<lparr>student = 3, event = 100, marked_by = 5, is_manual = True,
       notes = Some ''Manually marked by admin. late''\<rparr>] \<and>
   created_rows world (snd (group_attendance demo_cv None (group_post ''g'') world)) =
     [\<lparr>student = 1, event = 100, marked_by = 5, is_manual = False, notes = None\<rparr>,
      \<lparr>student = 2, event = 100, marked_by = 5, is_manual = False, notes = None\<rparr>] \<and>
   is_manual (hd (created_rows world (snd (manual_attendance None (manual_post [Pk 3]) world)))) \<and>
   notes (hd (created_rows world (snd (manual_attendance None (manual_post [Pk 3]) world)))) \<noteq>
     Some [] \<and>
   \<not> is_manual
       (hd (created_rows world (snd (group_attendance demo_cv None (group_post ''g'') world))))"
  using manual_rows_carry_notes_automatic_rows_do_not[of world None "manual_post [Pk 3]"
          demo_cv None "group_post ''g''"]
  by (simp add: demo_defs created_rows_def)

section \<open>Active students only\<close>

lemma match_face_Some:
  assumes "match_face studs thr lids (label, conf) = Inr (Some s)"
  shows "conf < thr \<and> resolves studs lids label s"
proof -
  from assms obtain m sid where
    c: "conf < thr" and l: "lids = Some m" and m: "map_of m label = Some sid" and
    g: "get_one (filter (\<lambda>s. student_id s = sid \<and> is_active s) studs) = Inr s"
    by (auto simp: match_face_def split: if_splits option.splits sum.splits exn.splits)
  from g have "filter (\<lambda>s. student_id s = sid \<and> is_active s) studs = [s]"
    by (simp add: get_one_Inr)
  from filter_singleton[OF this] c l m show ?thesis by (simp add: resolves_def)
qed

lemma recognized_are_active:
  assumes "recognize_each env studs thr g rcs r [] = (Inr out, r')" "s \<in> set out"
  shows "\<exists>label conf. Inr (label, conf) \<in> set (results_of env r g rcs) \<and> conf < thr \<and>
           resolves studs (label_ids r) label s"
proof -
  from recognize_each_Inr[OF assms(1)]
  have "out = List.map_filter (accepted_of studs thr (label_ids r)) (results_of env r g rcs)"
    by simp
  with assms(2) obtain res where res: "res \<in> set (results_of env r g rcs)"
    "accepted_of studs thr (label_ids r) res = Some s"
    by (auto simp: map_filter_def)
  from res(2) obtain lc where lc: "res = Inr lc" "match_face studs thr (label_ids r) lc = Inr (Some s)"
    by (auto simp: accepted_of_def split: sum.splits)
  obtain label conf where "lc = (label, conf)" by (cases lc) auto
  with lc res(1) match_face_Some[of studs thr "label_ids r" label conf s] show ?thesis by auto
qed

lemma mark_manual_skips:
  "mark_manual ev c an studs ps tbl n =
   mark_manual ev c an studs (filter (\<lambda>p. \<not> not_found studs p) ps) tbl n"
proof (induction ps arbitrary: tbl n)
  case Nil
  show ?case by simp
next
  case (Cons p ps)
  show ?case
  proof (cases "not_found studs p")
    case True
    then obtain i where "p = Pk i" "get_one (filter (\<lambda>s. pk s = i \<and> is_active s) studs) = Inl DoesNotExist"
      by (cases p) (auto simp: not_found_def get_one_def)
    with True Cons.IH show ?thesis by simp
  next
    case False
    show ?thesis
    proof (cases p)
      case NotInt
      with False show ?thesis by simp
    next
      case (Pk i)
      with False have "get_one (filter (\<lambda>s. pk s = i \<and> is_active s) studs) \<noteq> Inl DoesNotExist"
        by (simp add: not_found_def get_one_DoesNotExist)
      with False Pk Cons.IH show ?thesis
        by (auto split: sum.splits exn.splits)
    qed
  qed
qed

text \<open>
  Claim C10. Every row inserted by either view references a student that is in the
  Student table and active when the view runs: the group-photo view looks the
  recognized student id up among the active students, the manual view looks the posted
  id up among the active students. A posted id that no active student has is passed
  over without an error: the manual loop does exactly what it does on the posted list
  with those ids removed.
\<close>

theorem rows_reference_active_students:
  "(\<forall>a\<in>set (created_rows d (snd (group_attendance env u rq d))).
      \<exists>s\<in>set (students d). pk s = student a \<and> is_active s) \<and>
   (\<forall>a\<in>set (created_rows d (snd (manual_attendance v rq' d))).
      \<exists>s\<in>set (students d). pk s = student a \<and> is_active s \<and> Pk (pk s) \<in> set (post_students rq')) \<and>
   mark_manual ev c an studs ps tbl n =
     mark_manual ev c an studs (filter (\<lambda>p. \<not> not_found studs p) ps) tbl n"
proof -
  have "\<exists>s\<in>set (students d). pk s = student a \<and> is_active s"
    if "a \<in> set (created_rows d (snd (group_attendance env u rq d)))" for a
  proof -
    from group_created_rows[OF that] obtain ev c out p img r' where
      row: "auto_row ev c out a" and
      rec: "recognize_each env (students d) 70 img (detectMultiScale env img)
             (request_recognizer env d) [] = (Inr out, r')" by blast
    from row obtain s where s: "s \<in> set out" "pk s = student a" by (auto simp: auto_row_def)
    from recognized_are_active[OF rec s(1)] s(2) show ?thesis
      by (auto simp: resolves_def split: option.splits)
  qed
  moreover have "\<exists>s\<in>set (students d). pk s = student a \<and> is_active s \<and>
                   Pk (pk s) \<in> set (post_students rq')"
    if "a \<in> set (created_rows d (snd (manual_attendance v rq' d)))" for a
    using manual_created_rows[OF that] by (auto simp: manual_row_def)
  ultimately show ?thesis using mark_manual_skips by blast
qed

theorem rows_reference_active_students_witness:
  "created_rows world (snd (group_attendance demo_cv None (group_post ''g'') world)) =
     [\<lparr>student = 1, event = 100, marked_by = 5, is_manual = False, notes = None\<rparr>,
      \<lparr>student = 2, event = 100, marked_by = 5, is_manual = False, notes = None\<rparr>] \<and>
   manual_attendance None (manual_post [Pk 4, Pk 77, Pk 3]) world =
     (ManualCompleted 1,
      world\<lparr>attendances :=
        [\<lparr>student = 3, event = 100, marked_by = 5, is_manual = True,
          notes = Some ''Manually marked by admin. late''\<rparr>]\<rparr>) \<and>
   is_active alice \<and> is_active bob \<and> is_active carol \<and> \<not> is_active dave \<and>
   filter (\<lambda>p. \<not> not_found (students world) p) [Pk 4, Pk 77, Pk 3] = [Pk 3] \<and>
   mark_manual 100 5 ''late'' (students world) [Pk 4, Pk 77, Pk 3] [] 0 =
     mark_manual 100 5 ''late'' (students world) [Pk 3] [] 0"
  using rows_reference_active_students[of world demo_cv None "group_post ''g''" None
          "manual_post [Pk 4, Pk 77, Pk 3]" 100 5 "''late''" "students world"
          "[Pk 4, Pk 77, Pk 3]" "[]" 0]
  by (simp add: demo_defs created_rows_def not_found_def)

section \<open>The acceptance rule\<close>

lemma match_face_total:
  assumes "distinct (map student_id studs)"
  shows "\<exists>so. match_face studs thr lids res = Inr so"
proof -
  have "get_one (filter (\<lambda>s. student_id s = sid \<and> is_active s) studs) = Inl x \<Longrightarrow>
        x = DoesNotExist" for sid x
    using get_one_short[OF filter_key_short[OF assms]] by blast
  then show ?thesis
    by (cases res) (auto simp: match_face_def split: option.splits sum.splits exn.splits)
qed











section \<open>Lowering the cutoff\<close>

lemma match_face_mono:
  assumes "thr1 \<le> thr2" "match_face studs thr1 lids res = Inr (Some s)"
  shows "match_face studs thr2 lids res = Inr (Some s)"
proof -
  obtain label conf where res: "res = (label, conf)" by (cases res) auto
  with assms(2) have "conf < thr1"
    by (auto simp: match_face_def split: if_splits)
  with assms(1) have "conf < thr2" by simp
  with assms(2) res \<open>conf < thr1\<close> show ?thesis by (simp add: match_face_def)
qed

lemma accepted_ids_Inr [simp]: "accepted_ids (Inr ss) = pk ` set ss"
  by (simp add: accepted_ids_def)

lemma accepted_ids_Inl [simp]: "accepted_ids (Inl x) = {}"
  by (simp add: accepted_ids_def)

lemma finite_accepted_ids: "finite (accepted_ids out)"
  by (cases out) simp_all

lemma recognize_each_mono:
  assumes d: "distinct (map student_id studs)" and t: "thr1 \<le> thr2"
  shows "set acc1 \<subseteq> set acc2 \<Longrightarrow>
         accepted_ids (fst (recognize_each env studs thr1 g rcs r acc1)) \<subseteq>
         accepted_ids (fst (recognize_each env studs thr2 g rcs r acc2))"
proof (induction rcs arbitrary: r acc1 acc2)
  case Nil
  then show ?case by auto
next
  case (Cons rc rcs)
  let ?r1 = "snd (call_predict env r (face_roi env g rc))"
  show ?case
  proof (cases "predict env (trained r) (face_roi env g rc)")
    case (Inl x)
    then show ?thesis by (simp add: recognize_each_step del: recognize_each.simps)
  next
    case (Inr res)
    from match_face_total[OF d] obtain so1 so2 where
      so: "match_face studs thr1 (label_ids r) res = Inr so1"
          "match_face studs thr2 (label_ids r) res = Inr so2" by blast
    let ?a1 = "acc1 @ (case so1 of None \<Rightarrow> [] | Some s \<Rightarrow> [s])"
    let ?a2 = "acc2 @ (case so2 of None \<Rightarrow> [] | Some s \<Rightarrow> [s])"
    have "set ?a1 \<subseteq> set ?a2"
    proof (cases so1)
      case None
      with Cons.prems show ?thesis by auto
    next
      case (Some s)
      with so(1) match_face_mono[OF t] so(2) have "so2 = Some s" by fastforce
      with Some Cons.prems show ?thesis by auto
    qed
    from Cons.IH[OF this, of ?r1] Inr so show ?thesis
      by (simp add: recognize_each_step del: recognize_each.simps)
  qed
qed

text \<open>
  Claim C5. For a fixed photo and recognizer, hence a fixed list of classifier results,
  and a Student table with unique student ids, the set of identities the recognition
  loop accepts with a lower cutoff is contained in the set it accepts with a higher
  one, so it is never larger.
\<close>

theorem lower_threshold_accepts_no_more:
  assumes "distinct (map student_id studs)" "thr1 \<le> thr2"
  shows "accepted_ids (fst (recognize_each env studs thr1 g rcs r [])) \<subseteq>
           accepted_ids (fst (recognize_each env studs thr2 g rcs r [])) \<and>
         card (accepted_ids (fst (recognize_each env studs thr1 g rcs r []))) \<le>
           card (accepted_ids (fst (recognize_each env studs thr2 g rcs r [])))"
  using recognize_each_mono[OF assms, of "[]" "[]" env g rcs r]
  by (simp add: card_mono finite_accepted_ids)

theorem lower_threshold_accepts_no_more_witness:
  "distinct (map student_id (students world)) \<and> (50 :: real) \<le> 70 \<and>
   accepted_ids (fst (recognize_each demo_cv (students world) 50 7 (detectMultiScale demo_cv 7)
      (request_recognizer demo_cv world) [])) = {1} \<and>
   accepted_ids (fst (recognize_each demo_cv (students world) 70 7 (detectMultiScale demo_cv 7)
      (request_recognizer demo_cv world) [])) = {1, 2} \<and>
   card (accepted_ids (fst (recognize_each demo_cv (students world) 50 7
      (detectMultiScale demo_cv 7) (request_recognizer demo_cv world) []))) \<le>
   card (accepted_ids (fst (recognize_each demo_cv (students world) 70 7
      (detectMultiScale demo_cv 7) (request_recognizer demo_cv world) [])))"
proof -
  have h: "distinct (map student_id (students world))" "(50 :: real) \<le> 70"
    by (simp_all add: demo_defs)
  have a: "accepted_ids (fst (recognize_each demo_cv (students world) 50 7
      (detectMultiScale demo_cv 7) (request_recognizer demo_cv world) [])) = {1}"
    by (simp add: demo_defs request_recognizer_def)
  have b: "accepted_ids (fst (recognize_each demo_cv (students world) 70 7
      (detectMultiScale demo_cv 7) (request_recognizer demo_cv world) [])) = {1, 2}"
    by (simp add: demo_defs request_recognizer_def)
  from lower_threshold_accepts_no_more[OF h, of demo_cv 7 "detectMultiScale demo_cv 7"
         "request_recognizer demo_cv world"] h a b
  show ?thesis by simp
qed

section \<open>One classification per detected face\<close>

lemma recognize_each_total:
  assumes d: "distinct (map student_id studs)"
  shows "\<forall>rc\<in>set rcs. \<exists>lc. predict env (trained r) (face_roi env g rc) = Inr lc \<Longrightarrow>
         \<exists>out r'. recognize_each env studs thr g rcs r acc = (Inr out, r')"
proof (induction rcs arbitrary: r acc)
  case Nil
  show ?case by simp
next
  case (Cons rc rcs)
  let ?r1 = "snd (call_predict env r (face_roi env g rc))"
  from Cons.prems obtain lc where lc: "predict env (trained r) (face_roi env g rc) = Inr lc"
    by auto
  from match_face_total[OF d] obtain so where
    so: "match_face studs thr (label_ids r) lc = Inr so" by blast
  have "\<forall>rc\<in>set rcs. \<exists>lc. predict env (trained ?r1) (face_roi env g rc) = Inr lc"
    using Cons.prems by (simp add: call_predict_simps)
  from Cons.IH[OF this] lc so show ?case
    by (simp add: recognize_each_step del: recognize_each.simps)
qed

text \<open>
  Claim C7, as amended. In the group-photo view, when the classifier raises on no face
  of the photo and student ids are unique, the recognition loop calls the classifier
  exactly once on every detected face, in detection order, and the students it collects
  are the accepted results in that order; a label that the label map does not contain
  is passed over and is not an error. (\<open>recognize_face\<close> does not do this: see the
  counterexample.)
\<close>

theorem group_loop_classifies_every_face_once:
  assumes "distinct (map student_id studs)"
    "\<forall>rc\<in>set rcs. \<exists>lc. predict env (trained r) (face_roi env g rc) = Inr lc"
  shows "(\<exists>r'. recognize_each env studs thr g rcs r [] =
            (Inr (List.map_filter (accepted_of studs thr (label_ids r))
                    (results_of env r g rcs)), r') \<and>
            predict_log r' = predict_log r @ map (face_roi env g) rcs) \<and>
         length (results_of env r g rcs) = length rcs \<and>
         (map_of m label = None \<longrightarrow> match_face studs thr (Some m) (label, conf) = Inr None)"
proof -
  from recognize_each_total[OF assms] obtain out r' where
    r: "recognize_each env studs thr g rcs r [] = (Inr out, r')" by blast
  from recognize_each_Inr[OF r] r
  have "\<exists>r'. recognize_each env studs thr g rcs r [] =
            (Inr (List.map_filter (accepted_of studs thr (label_ids r))
                    (results_of env r g rcs)), r') \<and>
            predict_log r' = predict_log r @ map (face_roi env g) rcs" by auto
  moreover have "length (results_of env r g rcs) = length rcs"
    by (simp add: results_of_def)
  moreover have "map_of m label = None \<longrightarrow>
                 match_face studs thr (Some m) (label, conf) = Inr None"
    by (simp add: match_face_def)
  ultimately show ?thesis by blast
qed

theorem group_loop_classifies_every_face_once_witness:
  "distinct (map student_id (students world)) \<and>
   detectMultiScale demo_cv 7 = [(0, 0, 40, 40), (50, 0, 40, 40), (100, 0, 40, 40)] \<and>
   results_of demo_cv (request_recognizer demo_cv world) 7 (detectMultiScale demo_cv 7) =
     [Inr (0, 40), Inr (1, 55), Inr (0, 95)] \<and>
   fst (recognize_each demo_cv (students world) 70 7 (detectMultiScale demo_cv 7)
      (request_recognizer demo_cv world) []) = Inr [alice, bob] \<and>
   predict_log (snd (recognize_each demo_cv (students world) 70 7 (detectMultiScale demo_cv 7)
      (request_recognizer demo_cv world) [])) = [(7, 0), (7, 50), (7, 100)] \<and>
   map_of [(0, ''S1''), (1, ''S2'')] (5 :: int) = None \<and>
   match_face (students world) 70 (Some [(0, ''S1''), (1, ''S2'')]) (5, 60) = Inr None"
proof -
  have h: "distinct (map student_id (students world))"
    by (simp add: demo_defs)
  have p: "\<forall>rc\<in>set (detectMultiScale demo_cv 7).
     \<exists>lc. predict demo_cv (trained (request_recognizer demo_cv world)) (face_roi demo_cv 7 rc) =
       Inr lc"
    by (simp add: demo_defs request_recognizer_def)
  from group_loop_classifies_every_face_once[OF h p, of 70 "[(0, ''S1''), (1, ''S2'')]" 5 60] h
  show ?thesis
    by (simp add: demo_defs request_recognizer_def results_of_def accepted_of_def
          map_filter_simps)
qed

text \<open>
  \<open>recognize_face\<close> on a photo with three detected faces: it calls the classifier on the
  first face only and returns one student id, not one result per face.
\<close>

theorem recognize_face_stops_at_first_match:
  "imread demo_cv ''g'' = Some 7 \<and> length (detectMultiScale demo_cv 7) = 3 \<and>
   fst (recognize_face demo_cv (students world) SimpleFaceRecognizer ''g'') = Some ''S1'' \<and>
   predict_log (snd (recognize_face demo_cv (students world) SimpleFaceRecognizer ''g'')) =
     [(7, 0)]"
  by (simp add: demo_defs recognize_face_def)

section \<open>An empty training set\<close>

lemma load_and_train_predict_log:
  "predict_log (snd (load_and_train env studs r)) = predict_log r"
  by (simp add: load_and_train_def split: prod.splits sum.splits)

lemma load_and_train_raises:
  "train_loop env (filter is_active studs) ([], [], [], 0) = Inl x \<Longrightarrow>
   load_and_train env studs r = (False, r)"
  by (simp add: load_and_train_def)

text \<open>
  Claim C3, as amended. When the training loop ends with no face found in any
  reference photo of an active student (in particular when no student is enrolled),
  \<open>load_and_train\<close> returns
  \<open>False\<close> and leaves the recognizer as it was, and \<open>recognize_face\<close> on a recognizer
  without a label map then returns \<open>None\<close> with the recognizer unchanged, so without a
  call of the classifier. That \<open>None\<close> is the value it also returns when no face of the
  photo matches: see the counterexample.
\<close>

theorem empty_training_set_gives_none_without_classifier:
  assumes "label_ids r = None"
    "train_loop env (filter is_active studs) ([], [], [], 0) = Inr ([], labels, lids, current_id)"
  shows "load_and_train env studs r = (False, r) \<and>
         recognize_face env studs r image_path = (None, r) \<and>
         predict_log (snd (recognize_face env studs r image_path)) = predict_log r \<and>
         load_and_train env [] r = (False, r)"
proof -
  from assms(2) have "load_and_train env studs r = (False, r)"
    by (simp add: load_and_train_def)
  moreover from this assms(1) have "recognize_face env studs r image_path = (None, r)"
    by (simp add: recognize_face_def)
  moreover have "load_and_train env [] r = (False, r)"
    by (simp add: load_and_train_def)
  ultimately show ?thesis by simp
qed

theorem empty_training_set_gives_none_without_classifier_witness:
  "label_ids (SimpleFaceRecognizer :: (nat \<times> int) recognizer) = None \<and>
   train_loop demo_cv (filter is_active [carol, dave, kim]) ([], [], [], 0) =
     Inr ([], [], [], 0) \<and>
   load_and_train demo_cv [carol, dave, kim] SimpleFaceRecognizer =
     (False, SimpleFaceRecognizer) \<and>
   recognize_face demo_cv [carol, dave, kim] SimpleFaceRecognizer ''g'' =
     (None, SimpleFaceRecognizer) \<and>
   predict_log (snd (recognize_face demo_cv [carol, dave, kim] SimpleFaceRecognizer ''g'')) = []"
proof -
  have h: "label_ids (SimpleFaceRecognizer :: (nat \<times> int) recognizer) = None"
    "train_loop demo_cv (filter is_active [carol, dave, kim]) ([], [], [], 0) =
       Inr ([], [], [], 0)"
    by (simp_all add: demo_defs)
  from empty_training_set_gives_none_without_classifier[OF h, of "''g''"] h
  show ?thesis by (simp add: SimpleFaceRecognizer_def)
qed

text \<open>
  With nobody enrolled, training fails and \<open>recognize_face\<close> returns \<open>None\<close>; with the
  students of the small world enrolled, training succeeds, the one face of photo 6 is
  classified at distance 95 and \<open>recognize_face\<close> returns the same \<open>None\<close>.
\<close>

theorem untrainable_looks_like_no_match:
  "fst (load_and_train demo_cv [] SimpleFaceRecognizer) = False \<and>
   fst (load_and_train demo_cv (students world) SimpleFaceRecognizer) = True \<and>
   predict_log (snd (recognize_face demo_cv (students world) SimpleFaceRecognizer ''n'')) =
     [(6, 0)] \<and>
   fst (recognize_face demo_cv [] SimpleFaceRecognizer ''n'') =
     fst (recognize_face demo_cv (students world) SimpleFaceRecognizer ''n'')"
  by (simp add: demo_defs recognize_face_def)

section \<open>A photo without faces\<close>

text \<open>
  Claim C8, as amended. For a readable photo in which the detector finds no face, the
  group-photo view answers with its own message, \<open>No faces detected in the group photo!\<close>,
  and writes nothing, where an unreadable photo gets \<open>Invalid image file!\<close>;
  \<open>recognize_face\<close> returns \<open>None\<close> without a call of the classifier. That \<open>None\<close> is
  not an empty list, and it is the value \<open>recognize_face\<close> also returns for an unreadable
  photo: see the counterexample.
\<close>

theorem no_face_is_reported_separately_by_the_view:
  assumes "imread env p = Some img" "detectMultiScale env img = []"
  shows "process_group_photo env ev c p d = (NoFacesDetected, d) \<and>
         (imread env q = None \<longrightarrow> process_group_photo env ev c q d = (InvalidImage, d)) \<and>
         fst (recognize_face env studs r p) = None \<and>
         predict_log (snd (recognize_face env studs r p)) = predict_log r"
proof -
  have "process_group_photo env ev c p d = (NoFacesDetected, d)"
    using assms by (simp add: process_group_photo_alt)
  moreover have "imread env q = None \<longrightarrow> process_group_photo env ev c q d = (InvalidImage, d)"
    by (simp add: process_group_photo_alt)
  moreover have "fst (recognize_face env studs r p) = None"
    using assms by (simp add: recognize_face_def split: prod.splits bool.splits)
  moreover have "predict_log (snd (recognize_face env studs r p)) = predict_log r"
    using assms load_and_train_predict_log[of env studs r]
    by (auto simp: recognize_face_def split: prod.splits bool.splits)
  ultimately show ?thesis by simp
qed

theorem no_face_is_reported_separately_by_the_view_witness:
  "imread demo_cv ''z'' = Some 9 \<and> detectMultiScale demo_cv 9 = [] \<and>
   imread demo_cv ''q'' = None \<and>
   process_group_photo demo_cv camp kim ''z'' world = (NoFacesDetected, world) \<and>
   process_group_photo demo_cv camp kim ''q'' world = (InvalidImage, world) \<and>
   group_attendance demo_cv None (group_post ''z'') world = (NoFacesDetected, world) \<and>
   fst (recognize_face demo_cv (students world) SimpleFaceRecognizer ''z'') = None \<and>
   predict_log (snd (recognize_face demo_cv (students world) SimpleFaceRecognizer ''z'')) = []"
proof -
  have h: "imread demo_cv ''z'' = Some 9" "detectMultiScale demo_cv 9 = []"
    by (simp_all add: demo_defs)
  have g: "group_attendance demo_cv None (group_post ''z'') world = (NoFacesDetected, world)"
    by (simp add: demo_defs)
  have q: "imread demo_cv ''q'' = None" by (simp add: demo_defs)
  from no_face_is_reported_separately_by_the_view[OF h, of camp kim world "''q''"
         "students world" SimpleFaceRecognizer] h g q
  show ?thesis by (simp add: SimpleFaceRecognizer_def)
qed

text \<open>
  \<open>recognize_face\<close> on a readable photo without faces and on a file that is not an
  image: the same \<open>None\<close>.
\<close>

theorem no_face_looks_like_unreadable_image:
  "imread demo_cv ''z'' = Some 9 \<and> detectMultiScale demo_cv 9 = [] \<and>
   imread demo_cv ''q'' = None \<and>
   fst (recognize_face demo_cv (students world) SimpleFaceRecognizer ''z'') = None \<and>
   recognize_face demo_cv (students world) SimpleFaceRecognizer ''z'' =
     recognize_face demo_cv (students world) SimpleFaceRecognizer ''q''"
  by (simp add: demo_defs recognize_face_def)

end
